theory Spec2Isabelle
  imports Complex_Main "HOL-Library.Word"
begin

section \<open>Traffic-light state machine (01\_state\_machine\_traffic.c)\<close>

text \<open>
  The C file keeps its whole state in globals and function-local statics. The model
  threads one record through every function: the \<open>TrafficLightSystem\<close> struct, the
  static \<open>simulatedTime\<close> of \<open>getCurrentTime\<close>, the static \<open>redFlashing\<close> of
  \<open>handleEvent\<close>, and the sequence of calls made to the simulated light hardware.
  \<open>uint32_t\<close> is \<open>32 word\<close>, so \<open>+\<close> and \<open>-\<close> wrap as in C. The \<open>printf\<close> narration is
  not modelled.
\<close>

datatype TrafficLightState =
  STATE_RED | STATE_GREEN | STATE_YELLOW | STATE_RED_YELLOW | STATE_PEDESTRIAN | STATE_ERROR

datatype TrafficLightEvent =
  EVENT_TIMER_EXPIRED | EVENT_BUTTON_PRESSED | EVENT_EMERGENCY | EVENT_SENSOR_TRIGGERED
  | EVENT_RESET

record TrafficLightSystem =
  currentState :: TrafficLightState
  previousState :: TrafficLightState
  stateStartTime :: "32 word"
  stateDuration :: "32 word"
  pedestrianRequested :: bool
  emergencyMode :: bool
  totalCycles :: "32 word"
  errorFlag :: bool

text \<open>One constructor per simulated hardware function of the source.\<close>

datatype hw_call =
  RedOn | RedOff | GreenOn | GreenOff | YellowOn | YellowOff
  | PedestrianOn | PedestrianOff | EmergencyAlarm

record machine =
  trafficLight :: TrafficLightSystem
  simulatedTime :: "32 word"
  redFlashing :: bool
  hw_trace :: "hw_call list"

definition initial_trafficLight :: TrafficLightSystem where
  "initial_trafficLight =
     \<lparr> currentState = STATE_RED, previousState = STATE_RED, stateStartTime = 0,
       stateDuration = 0, pedestrianRequested = False, emergencyMode = False,
       totalCycles = 0, errorFlag = False \<rparr>"

definition initial_machine :: machine where
  "initial_machine =
     \<lparr> trafficLight = initial_trafficLight, simulatedTime = 0, redFlashing = False,
       hw_trace = [] \<rparr>"

definition hw :: "hw_call \<Rightarrow> machine \<Rightarrow> machine" where
  "hw c m = m\<lparr> hw_trace := hw_trace m @ [c] \<rparr>"

text \<open>\<open>simulatedTime += 1000; return simulatedTime;\<close>\<close>

definition getCurrentTime :: "machine \<Rightarrow> 32 word \<times> machine" where
  "getCurrentTime m =
     (simulatedTime m + 1000, m\<lparr> simulatedTime := simulatedTime m + 1000 \<rparr>)"

definition turnOffAllLights :: "machine \<Rightarrow> machine" where
  "turnOffAllLights m = hw PedestrianOff (hw YellowOff (hw GreenOff (hw RedOff m)))"

definition set_stateDuration :: "32 word \<Rightarrow> machine \<Rightarrow> machine" where
  "set_stateDuration d m = m\<lparr> trafficLight := (trafficLight m)\<lparr> stateDuration := d \<rparr> \<rparr>"

text \<open>The \<open>switch (newState)\<close> of \<open>enterState\<close>: lights and duration of the state entered.\<close>

fun setupState :: "TrafficLightState \<Rightarrow> machine \<Rightarrow> machine" where
  "setupState STATE_RED m =
     set_stateDuration 10000 (hw PedestrianOn (hw RedOn (turnOffAllLights m)))"
| "setupState STATE_GREEN m =
     set_stateDuration 15000 (hw PedestrianOff (hw GreenOn (turnOffAllLights m)))"
| "setupState STATE_YELLOW m =
     set_stateDuration 3000 (hw PedestrianOff (hw YellowOn (turnOffAllLights m)))"
| "setupState STATE_RED_YELLOW m =
     set_stateDuration 2000
       (hw PedestrianOff (hw YellowOn (hw RedOn (turnOffAllLights m))))"
| "setupState STATE_PEDESTRIAN m =
     (let m1 = set_stateDuration 20000 (hw PedestrianOn (hw RedOn (turnOffAllLights m)))
      in m1\<lparr> trafficLight := (trafficLight m1)\<lparr> pedestrianRequested := False \<rparr> \<rparr>)"
| "setupState STATE_ERROR m =
     (let m1 = set_stateDuration 1000 (hw EmergencyAlarm (turnOffAllLights m))
      in m1\<lparr> trafficLight := (trafficLight m1)\<lparr> errorFlag := True \<rparr> \<rparr>)"

definition enterState :: "TrafficLightState \<Rightarrow> machine \<Rightarrow> machine" where
  "enterState newState m =
     (let m1 = m\<lparr> trafficLight := (trafficLight m)
                  \<lparr> previousState := currentState (trafficLight m),
                    currentState := newState \<rparr> \<rparr>;
          (now, m2) = getCurrentTime m1;
          m3 = m2\<lparr> trafficLight := (trafficLight m2)\<lparr> stateStartTime := now \<rparr> \<rparr>
      in setupState newState m3)"

text \<open>The inner \<open>switch (trafficLight.currentState)\<close> of the timer-expired case.\<close>

definition timerExpired :: "machine \<Rightarrow> machine" where
  "timerExpired m =
     (case currentState (trafficLight m) of
        STATE_RED \<Rightarrow>
          if pedestrianRequested (trafficLight m) then enterState STATE_PEDESTRIAN m
          else enterState STATE_RED_YELLOW m
      | STATE_RED_YELLOW \<Rightarrow> enterState STATE_GREEN m
      | STATE_GREEN \<Rightarrow> enterState STATE_YELLOW m
      | STATE_YELLOW \<Rightarrow>
          (let m1 = enterState STATE_RED m
           in m1\<lparr> trafficLight := (trafficLight m1)
                    \<lparr> totalCycles := totalCycles (trafficLight m1) + 1 \<rparr> \<rparr>)
      | STATE_PEDESTRIAN \<Rightarrow> enterState STATE_RED_YELLOW m
      | STATE_ERROR \<Rightarrow>
          if redFlashing m then (hw RedOff m)\<lparr> redFlashing := False \<rparr>
          else (hw RedOn m)\<lparr> redFlashing := True \<rparr>)"

fun handleEvent :: "TrafficLightEvent \<Rightarrow> machine \<Rightarrow> machine" where
  "handleEvent EVENT_TIMER_EXPIRED m = timerExpired m"
| "handleEvent EVENT_BUTTON_PRESSED m =
     (let m1 = m\<lparr> trafficLight := (trafficLight m)\<lparr> pedestrianRequested := True \<rparr> \<rparr>
      in if currentState (trafficLight m1) = STATE_GREEN then
           (let (currentTime, m2) = getCurrentTime m1;
                timeInState = currentTime - stateStartTime (trafficLight m2)
            in if timeInState > 5000 then enterState STATE_YELLOW m2 else m2)
         else m1)"
| "handleEvent EVENT_EMERGENCY m =
     enterState STATE_GREEN
       (m\<lparr> trafficLight := (trafficLight m)\<lparr> emergencyMode := True \<rparr> \<rparr>)"
| "handleEvent EVENT_SENSOR_TRIGGERED m =
     (if currentState (trafficLight m) = STATE_GREEN then
        m\<lparr> trafficLight := (trafficLight m)
             \<lparr> stateDuration := stateDuration (trafficLight m) + 5000 \<rparr> \<rparr>
      else m)"
| "handleEvent EVENT_RESET m =
     enterState STATE_RED
       (m\<lparr> trafficLight := (trafficLight m)
            \<lparr> emergencyMode := False, errorFlag := False,
              pedestrianRequested := False \<rparr> \<rparr>)"

definition isTimeToChangeState :: "machine \<Rightarrow> bool \<times> machine" where
  "isTimeToChangeState m =
     (let (currentTime, m1) = getCurrentTime m;
          timeInState = currentTime - stateStartTime (trafficLight m1)
      in (timeInState \<ge> stateDuration (trafficLight m1), m1))"

text \<open>
  \<open>displayStatus\<close> only prints, but it reads the clock to do so, and reading the clock
  advances it.
\<close>

definition displayStatus :: "machine \<Rightarrow> machine" where
  "displayStatus m = snd (getCurrentTime m)"

definition runStateMachine :: "machine \<Rightarrow> machine" where
  "runStateMachine m =
     (let (expired, m1) = isTimeToChangeState m;
          m2 = (if expired then handleEvent EVENT_TIMER_EXPIRED m1 else m1)
      in displayStatus m2)"

text \<open>
  The value the \<open>(n + 1)\<close>-th call of \<open>getCurrentTime\<close> returns, and the state it leaves,
  when the calls start in state \<open>m\<close>.
\<close>

fun nth_call :: "nat \<Rightarrow> machine \<Rightarrow> 32 word \<times> machine" where
  "nth_call 0 m = getCurrentTime m"
| "nth_call (Suc n) m = getCurrentTime (snd (nth_call n m))"

text \<open>States used as concrete inputs: \<open>main\<close> starts with \<open>enterState(STATE_RED)\<close>.\<close>

definition red_entered :: machine where
  "red_entered = enterState STATE_RED initial_machine"

definition red_at :: "32 word \<Rightarrow> machine" where
  "red_at t = red_entered \<lparr> simulatedTime := t \<rparr>"

definition green_entered :: machine where
  "green_entered = enterState STATE_GREEN red_entered"

definition error_entered :: machine where
  "error_entered = enterState STATE_ERROR red_entered"

text \<open>
  The green state after 858990 car-sensor events in a row, none of which reads the clock.
\<close>

definition green_wrapped :: machine where
  "green_wrapped = (handleEvent EVENT_SENSOR_TRIGGERED ^^ 858990) green_entered"

section \<open>Bounded queue (the FreeRTOS queue used by 03\_freertos\_tasks.c)\<close>

text \<open>
  Modelled from the spec: the data of a \<open>Queue<T>\<close>, standing for the FreeRTOS queues
  that the tasks create with \<open>xQueueCreate\<close> and use through \<open>xQueueSend\<close> and
  \<open>xQueueReceive\<close>. These kernel functions are missing from the repository's sources,
  which only call them. The spec gives a queue a fixed capacity N, FIFO order and a size
  that stays within N, and names the failures \<open>QueueFull\<close>, \<open>Empty\<close> and \<open>Timeout\<close>.
\<close>

datatype queue_error = QueueFull | Empty | Timeout

record 'a queue =
  capacity :: nat
  items :: "'a list"

text \<open>
  Modelled from the spec: creation of a queue, missing as \<open>xQueueCreate\<close>; the queue
  starts empty with the capacity asked for.
\<close>

definition queue_create :: "nat \<Rightarrow> 'a queue" where
  "queue_create n = \<lparr> capacity = n, items = [] \<rparr>"

text \<open>
  Modelled from the spec: \<open>send(item, timeout)\<close>, missing as \<open>xQueueSend\<close>. A full queue
  rejects a non-blocking send (timeout 0) with \<open>QueueFull\<close> rather than overwriting; the
  blocking variant waits until space is available or the timeout elapses and then fails
  with \<open>Timeout\<close>. The model is sequential: no other task runs during the call, so a
  blocking send to a full queue runs into its timeout.
\<close>

definition queue_send :: "'a \<Rightarrow> nat \<Rightarrow> 'a queue \<Rightarrow> (queue_error + unit) \<times> 'a queue" where
  "queue_send item timeout q =
     (if length (items q) < capacity q then (Inr (), q\<lparr> items := items q @ [item] \<rparr>)
      else if timeout = 0 then (Inl QueueFull, q)
      else (Inl Timeout, q))"

text \<open>
  Modelled from the spec: \<open>receive(timeout)\<close>, missing as \<open>xQueueReceive\<close>, symmetric to
  \<open>send\<close>: the oldest item is taken out; an empty queue gives \<open>Empty\<close> to a non-blocking
  receive and \<open>Timeout\<close> to a blocking one.
\<close>

definition queue_receive :: "nat \<Rightarrow> 'a queue \<Rightarrow> (queue_error + 'a) \<times> 'a queue" where
  "queue_receive timeout q =
     (case items q of
        x # xs \<Rightarrow> (Inr x, q\<lparr> items := xs \<rparr>)
      | [] \<Rightarrow> if timeout = 0 then (Inl Empty, q) else (Inl Timeout, q))"

section \<open>Scheduler (the FreeRTOS scheduler behind xTaskCreate in 03\_freertos\_tasks.c)\<close>

text \<open>
  Modelled from the spec: the data of a Task and of the Scheduler's task set, standing for
  the FreeRTOS scheduler, which is missing from the repository's sources: they only
  register tasks through \<open>xTaskCreate\<close>. The spec gives a task a name, an integer
  priority (higher is more urgent) and one of five states; the scheduler owns the tasks,
  kept here in the order of their registration.
\<close>

datatype task_state = Ready | Running | Blocked | Suspended | Terminated

record task =
  name :: string
  priority :: int
  state :: task_state

text \<open>
  Modelled from the spec: \<open>register_task\<close>, missing as \<open>xTaskCreate\<close>. The task joins the
  task set behind the tasks registered before it and enters \<open>Ready\<close>. The spec names a
  maximum task count without giving it; no limit is modelled.
\<close>

definition register_task :: "string \<Rightarrow> int \<Rightarrow> task list \<Rightarrow> task list" where
  "register_task n p ts = ts @ [\<lparr> name = n, priority = p, state = Ready \<rparr>]"

text \<open>
  Modelled from the spec: the scheduling decision, missing with the kernel. The spec's
  rule is that the \<open>Ready\<close> task of highest priority runs next and that among equal
  priorities the earliest-registered one runs first. \<open>pick\<close> gives the position of that
  task, or \<open>None\<close> when no task is \<open>Ready\<close>.
\<close>

fun pick :: "task list \<Rightarrow> nat option" where
  "pick [] = None"
| "pick (t # ts) =
     (case pick ts of
        None \<Rightarrow> if state t = Ready then Some 0 else None
      | Some i \<Rightarrow>
          if state t = Ready \<and> priority (ts ! i) \<le> priority t then Some 0
          else Some (Suc i))"

text \<open>The position of the task that is \<open>Running\<close>, if there is one.\<close>

fun running :: "task list \<Rightarrow> nat option" where
  "running [] = None"
| "running (t # ts) = (if state t = Running then Some 0 else map_option Suc (running ts))"

definition set_state :: "nat \<Rightarrow> task_state \<Rightarrow> task list \<Rightarrow> task list" where
  "set_state i s ts = ts[i := (ts ! i)\<lparr> state := s \<rparr>]"

text \<open>
  Modelled from the spec: dispatch and preemption, missing with the kernel. With no task
  running, the picked task becomes \<open>Running\<close>. With a task running, a picked task of
  strictly higher priority preempts it: the running task goes back to \<open>Ready\<close> and the
  picked one becomes \<open>Running\<close>. A picked task of equal or lower priority waits; the spec
  assumes no time-slicing.
\<close>

definition schedule :: "task list \<Rightarrow> task list" where
  "schedule ts =
     (case pick ts of
        None \<Rightarrow> ts
      | Some i \<Rightarrow>
          (case running ts of
             None \<Rightarrow> set_state i Running ts
           | Some r \<Rightarrow>
               if priority (ts ! r) < priority (ts ! i)
               then set_state i Running (set_state r Ready ts)
               else ts))"

text \<open>
  Modelled from the spec: the end of a task's turn, missing with the kernel. The spec's
  scheduling model is cooperative-yield-on-block, a priority-run-to-block model: the
  running task gives up the processor at a suspension point (in the source, its
  \<open>vTaskDelayUntil\<close> call), where it becomes \<open>Blocked\<close> until its wake condition holds.
\<close>

definition yield_running :: "task list \<Rightarrow> task list" where
  "yield_running ts = (case running ts of None \<Rightarrow> ts | Some r \<Rightarrow> set_state r Blocked ts)"

text \<open>
  Modelled from the spec: \<open>run_once\<close>, missing with the kernel: one scheduling decision,
  after which the selected task has control until it yields. The result names the task
  that ran, \<open>None\<close> when the scheduler was idle. \<open>run_order n\<close> lists the tasks that run
  in \<open>n\<close> successive decisions.
\<close>

definition run_once :: "task list \<Rightarrow> string option \<times> task list" where
  "run_once ts =
     (let ts1 = schedule ts
      in (map_option (\<lambda>r. name (ts1 ! r)) (running ts1), yield_running ts1))"

fun run_order :: "nat \<Rightarrow> task list \<Rightarrow> string option list" where
  "run_order 0 ts = []"
| "run_order (Suc n) ts = (case run_once ts of (who, ts') \<Rightarrow> who # run_order n ts')"

text \<open>
  The five \<open>xTaskCreate\<close> calls of \<open>setup\<close>, in the order of the source, with the names
  and priorities it passes.
\<close>

definition setup_tasks :: "task list" where
  "setup_tasks =
     register_task ''Watchdog'' 4
       (register_task ''Display'' 1
         (register_task ''Button Handler'' 3
           (register_task ''Sensor Reading'' 2
             (register_task ''LED Control'' 1 []))))"

section \<open>Floating-point values (float in part\_002 and 03\_freertos\_tasks.c)\<close>

text \<open>
  A C \<open>float\<close> on the target is an IEEE 754 binary32 number: a finite value, an infinity
  or a NaN. A finite value is a rational \<open>m * 2 ^ e\<close> with \<open>\<bar>m\<bar> < 2 ^ 24\<close> and
  \<open>- 149 \<le> e \<le> 104\<close>. The two zeros compare equal and are one value here; the payload of
  a NaN is not kept.
\<close>

datatype float = Finite rat | PlusInf | MinusInf | NaN

definition round_half_even :: "rat \<Rightarrow> int" where
  "round_half_even q =
     (let f = \<lfloor>q\<rfloor>; d = q - of_int f
      in if d < 1 / 2 then f
         else if 1 / 2 < d then f + 1
         else if even f then f else f + 1)"

text \<open>
  The binary exponent of \<open>q\<close>: the least \<open>e \<ge> - 126\<close> with \<open>\<bar>q\<bar> < 2 ^ (e + 1)\<close>, and 128
  when \<open>q\<close> lies beyond the binary32 range.
\<close>

definition float_exponent :: "rat \<Rightarrow> int" where
  "float_exponent q =
     (case find (\<lambda>e. \<bar>q\<bar> < 2 powi (e + 1)) [-126..127] of
        Some e \<Rightarrow> e
      | None \<Rightarrow> 128)"

text \<open>
  Rounding to 24 significant bits, to the nearest value and in a tie to the even
  significand. Below \<open>2 ^ - 126\<close> the spacing stays that of the subnormal numbers.
\<close>

definition float_round :: "rat \<Rightarrow> rat" where
  "float_round q =
     (let ulp = 2 powi (float_exponent q - 23)
      in of_int (round_half_even (q / ulp)) * ulp)"

text \<open>
  The float nearest to an exact result: a rounded magnitude of \<open>2 ^ 128\<close> or more
  overflows to the infinity of its sign.
\<close>

definition float_of_rat :: "rat \<Rightarrow> float" where
  "float_of_rat q =
     (let r = float_round q
      in if 2 powi 128 \<le> r then PlusInf
         else if r \<le> - (2 powi 128) then MinusInf
         else Finite r)"

text \<open>Conversion of an \<open>int\<close> operand to \<open>float\<close>.\<close>

definition float_of_int :: "int \<Rightarrow> float" where
  "float_of_int n = float_of_rat (of_int n)"

text \<open>\<open>a + b\<close>: a NaN operand or the sum of opposite infinities gives NaN.\<close>

fun float_add :: "float \<Rightarrow> float \<Rightarrow> float" where
  "float_add NaN _ = NaN"
| "float_add _ NaN = NaN"
| "float_add (Finite a) (Finite b) = float_of_rat (a + b)"
| "float_add PlusInf MinusInf = NaN"
| "float_add MinusInf PlusInf = NaN"
| "float_add PlusInf _ = PlusInf"
| "float_add _ PlusInf = PlusInf"
| "float_add MinusInf _ = MinusInf"
| "float_add _ MinusInf = MinusInf"

text \<open>\<open>a < b\<close>: every comparison with a NaN is false.\<close>

fun float_less :: "float \<Rightarrow> float \<Rightarrow> bool" where
  "float_less NaN _ = False"
| "float_less _ NaN = False"
| "float_less (Finite a) (Finite b) = (a < b)"
| "float_less MinusInf MinusInf = False"
| "float_less MinusInf _ = True"
| "float_less _ MinusInf = False"
| "float_less PlusInf _ = False"
| "float_less _ PlusInf = True"

text \<open>\<open>a / b\<close> for a divisor other than zero.\<close>

fun float_quotient :: "float \<Rightarrow> float \<Rightarrow> float" where
  "float_quotient NaN _ = NaN"
| "float_quotient _ NaN = NaN"
| "float_quotient (Finite a) (Finite b) = float_of_rat (a / b)"
| "float_quotient (Finite a) _ = Finite 0"
| "float_quotient PlusInf (Finite b) = (if 0 < b then PlusInf else MinusInf)"
| "float_quotient MinusInf (Finite b) = (if 0 < b then MinusInf else PlusInf)"
| "float_quotient _ _ = NaN"

datatype arith_error = DivisionByZero

text \<open>Division: a zero divisor is reported as an error value.\<close>

definition float_div :: "float \<Rightarrow> float \<Rightarrow> arith_error + float" where
  "float_div a b = (if b = Finite 0 then Inl DivisionByZero else Inr (float_quotient a b))"

section \<open>Sensor statistics (part\_002, the hardware-timer example)\<close>

definition BUFFER_SIZE :: int where
  "BUFFER_SIZE = 60"

text \<open>
  One pass of the \<open>for\<close> loop body at index \<open>i\<close>, on the locals \<open>(sum, min, max)\<close>.
\<close>

definition stats_step ::
  "float list \<Rightarrow> float \<times> float \<times> float \<Rightarrow> nat \<Rightarrow> float \<times> float \<times> float" where
  "stats_step sensorReadings acc i =
     (let (sum, min, max) = acc;
          value = sensorReadings ! i
      in (float_add sum value,
          if float_less value min then value else min,
          if float_less max value then value else max))"

text \<open>
  The globals \<open>sensorReadings\<close> (an array of \<open>BUFFER_SIZE\<close> floats) and \<open>totalReadings\<close> are
  arguments; the three results written through the pointers are returned as
  \<open>(average, minimum, maximum)\<close>.
\<close>

definition calculateSensorStats ::
  "float list \<Rightarrow> int \<Rightarrow> arith_error + float \<times> float \<times> float" where
  "calculateSensorStats sensorReadings totalReadings =
     (if totalReadings = 0 then Inr (Finite 0, Finite 0, Finite 0)
      else
        let readingsToUse = (if totalReadings < BUFFER_SIZE then totalReadings else BUFFER_SIZE);
            (sum, min, max) =
              foldl (stats_step sensorReadings)
                (Finite 0, sensorReadings ! 0, sensorReadings ! 0) [0..<nat readingsToUse]
        in case float_div sum (float_of_int readingsToUse) of
             Inl e \<Rightarrow> Inl e
           | Inr average \<Rightarrow> Inr (average, min, max))"

text \<open>
  The two updates of the loop body on their own: the minimum and the maximum kept so far,
  against the next reading.
\<close>

definition keep_min :: "float \<Rightarrow> float \<Rightarrow> float" where
  "keep_min m v = (if float_less v m then v else m)"

definition keep_max :: "float \<Rightarrow> float \<Rightarrow> float" where
  "keep_max m v = (if float_less m v then v else m)"

section \<open>Watchdog task (03\_freertos\_tasks.c)\<close>

record SensorData =
  voltage :: float
  temperature :: float
  lightLevel :: int
  timestamp :: "32 word"

record ButtonEvent =
  pressed :: bool
  released :: bool
  duration :: "32 word"
  event_timestamp :: "32 word"

record SystemState =
  systemRunning :: bool
  ledMode :: int
  sensorSamples :: int
  buttonPresses :: int
  averageTemp :: float
  alarmActive :: bool

text \<open>
  What the watchdog task can reach: the global \<open>systemState\<close>, the two queues of the
  program, its local \<open>lastSensorTime\<close> and its static \<open>unhealthyCount\<close>. \<open>unsigned long\<close>
  and \<open>uint32_t\<close> are 32 bits wide on the target. \<open>unhealthyCount\<close> is a C \<open>int\<close>; it is
  modelled as an unbounded integer, and stays between 0 and 5 between checks.
\<close>

record rtos =
  systemState :: SystemState
  sensorDataQueue :: "SensorData queue"
  buttonEventQueue :: "ButtonEvent queue"
  lastSensorTime :: "32 word"
  unhealthyCount :: int

text \<open>
  The state \<open>setup\<close> leaves behind: \<open>xQueueCreate(5, ...)\<close>, \<open>xQueueCreate(3, ...)\<close>, the
  initialiser of \<open>systemState\<close>, and the initial values of the watchdog's variables.
\<close>

definition initial_rtos :: rtos where
  "initial_rtos =
     \<lparr> systemState =
         \<lparr> systemRunning = True, ledMode = 1, sensorSamples = 0, buttonPresses = 0,
           averageTemp = Finite 0, alarmActive = False \<rparr>,
       sensorDataQueue = queue_create 5,
       buttonEventQueue = queue_create 3,
       lastSensorTime = 0,
       unhealthyCount = 0 \<rparr>"

text \<open>
  The readings one pass of the watchdog loop takes from the platform: \<open>millis()\<close>,
  \<open>ESP.getFreeHeap()\<close> and \<open>uxTaskGetStackHighWaterMark(taskLEDHandle)\<close>.
\<close>

record readings =
  millis :: "32 word"
  freeHeap :: "32 word"
  ledStackHighWater :: "32 word"

text \<open>The three health tests; the first one also refreshes \<open>lastSensorTime\<close>.\<close>

definition sensorCheck :: "readings \<Rightarrow> rtos \<Rightarrow> bool \<times> rtos" where
  "sensorCheck r s =
     (if sensorSamples (systemState s) > 0 then (True, s\<lparr> lastSensorTime := millis r \<rparr>)
      else if millis r - lastSensorTime s > 10000 then (False, s)
      else (True, s))"

definition systemHealthy :: "readings \<Rightarrow> rtos \<Rightarrow> bool" where
  "systemHealthy r s =
     (fst (sensorCheck r s) \<and> \<not> freeHeap r < 10000 \<and> \<not> ledStackHighWater r < 100)"

text \<open>
  One pass of the \<open>while\<close> loop of \<open>taskWatchdog\<close>, without the messages printed through
  \<open>safePrintln\<close> and without the final \<open>vTaskDelayUntil\<close>.
\<close>

definition taskWatchdog_check :: "readings \<Rightarrow> rtos \<Rightarrow> rtos" where
  "taskWatchdog_check r s =
     (let s1 = snd (sensorCheck r s)
      in if \<not> systemHealthy r s then
           (let s2 = s1\<lparr> unhealthyCount := unhealthyCount s1 + 1 \<rparr>
            in if unhealthyCount s2 > 5 then
                 s2\<lparr> systemState := (systemState s2)\<lparr> alarmActive := True \<rparr>,
                     unhealthyCount := 0 \<rparr>
               else s2)
         else s1\<lparr> unhealthyCount := 0 \<rparr>)"

text \<open>Successive passes, one per element of the list of readings.\<close>

fun taskWatchdog_checks :: "readings list \<Rightarrow> rtos \<Rightarrow> rtos" where
  "taskWatchdog_checks [] s = s"
| "taskWatchdog_checks (r # rs) s = taskWatchdog_checks rs (taskWatchdog_check r s)"

section \<open>Concrete inputs\<close>

text \<open>Readings of a watchdog pass with little free heap, and with nothing wrong.\<close>

definition low_heap :: readings where
  "low_heap = \<lparr> millis = 0, freeHeap = 5000, ledStackHighWater = 500 \<rparr>"

definition all_well :: readings where
  "all_well = \<lparr> millis = 0, freeHeap = 200000, ledStackHighWater = 500 \<rparr>"

text \<open>The watchdog after five unhealthy passes in a row.\<close>

definition five_faults :: rtos where
  "five_faults = initial_rtos \<lparr> unhealthyCount := 5 \<rparr>"

text \<open>A queue of capacity 2 after sending A and B.\<close>

definition scenario_B :: "string queue" where
  "scenario_B = snd (queue_send ''B'' 0 (snd (queue_send ''A'' 0 (queue_create 2))))"

text \<open>
  Sensor buffers. The float nearest to 3.3 is the voltage \<open>readAndStoreSensor\<close> stores
  for the full-scale raw value 4095; \<open>FLT_MAX\<close> is the largest finite float.
\<close>

definition full_scale :: rat where
  "full_scale = 13841203 / 4194304"

definition FLT_MAX :: rat where
  "FLT_MAX = 340282346638528859811704183484516925440"

definition ramp_readings :: "float list" where
  "ramp_readings = [Finite 1, Finite 2, Finite 3] @ replicate 57 (Finite 0)"

definition full_scale_readings :: "float list" where
  "full_scale_readings = replicate 60 (Finite full_scale)"

definition overflow_readings :: "float list" where
  "overflow_readings = [Finite FLT_MAX, Finite FLT_MAX] @ replicate 58 (Finite 0)"

definition nan_readings :: "float list" where
  "nan_readings = [NaN] @ replicate 59 (Finite 0)"

text \<open>
  Task sets: three ready tasks of priorities 1, 2 and 3; the tasks of \<open>setup\<close> while the
  LED task runs and the button task, or the display task, has become ready; and the tasks
  of \<open>setup\<close> all blocked.
\<close>

definition ready_task :: "string \<Rightarrow> int \<Rightarrow> task" where
  "ready_task n p = \<lparr> name = n, priority = p, state = Ready \<rparr>"

definition three_ready :: "task list" where
  "three_ready = [ready_task ''P1'' 1, ready_task ''P2'' 2, ready_task ''P3'' 3]"

definition button_wakes :: "task list" where
  "button_wakes =
   [\<lparr> name = ''LED Control'', priority = 1, state = Running \<rparr>,
    \<lparr> name = ''Sensor Reading'', priority = 2, state = Blocked \<rparr>,
    \<lparr> name = ''Button Handler'', priority = 3, state = Ready \<rparr>,
    \<lparr> name = ''Display'', priority = 1, state = Blocked \<rparr>,
    \<lparr> name = ''Watchdog'', priority = 4, state = Blocked \<rparr>]"

definition display_ready :: "task list" where
  "display_ready =
   [\<lparr> name = ''LED Control'', priority = 1, state = Running \<rparr>,
    \<lparr> name = ''Sensor Reading'', priority = 2, state = Blocked \<rparr>,
    \<lparr> name = ''Button Handler'', priority = 3, state = Blocked \<rparr>,
    \<lparr> name = ''Display'', priority = 1, state = Ready \<rparr>,
    \<lparr> name = ''Watchdog'', priority = 4, state = Blocked \<rparr>]"

definition all_blocked :: "task list" where
  "all_blocked = map (\<lambda>t. t\<lparr> state := Blocked \<rparr>) setup_tasks"





section \<open>Properties of the traffic-light state machine\<close>

lemmas fsm_defs = hw_def getCurrentTime_def turnOffAllLights_def set_stateDuration_def
  enterState_def timerExpired_def isTimeToChangeState_def displayStatus_def
  runStateMachine_def

lemma trafficLight_getCurrentTime [simp]:
  "trafficLight (snd (getCurrentTime m)) = trafficLight m"
  by (simp add: getCurrentTime_def)

lemma fst_getCurrentTime: "fst (getCurrentTime m) = simulatedTime m + 1000"
  by (simp add: getCurrentTime_def)

lemma currentState_enterState [simp]:
  "currentState (trafficLight (enterState s m)) = s"
  by (cases s) (simp_all add: fsm_defs Let_def)

lemma stateStartTime_enterState:
  "stateStartTime (trafficLight (enterState s m)) = simulatedTime m + 1000"
  by (cases s) (simp_all add: fsm_defs Let_def)

lemma enterState_RED_fields:
  "pedestrianRequested (trafficLight (enterState STATE_RED m))
     = pedestrianRequested (trafficLight m)"
  "emergencyMode (trafficLight (enterState STATE_RED m)) = emergencyMode (trafficLight m)"
  "errorFlag (trafficLight (enterState STATE_RED m)) = errorFlag (trafficLight m)"
  "stateDuration (trafficLight (enterState STATE_RED m)) = 10000"
  by (simp_all add: fsm_defs Let_def)

lemma isTimeToChangeState_eq:
  "isTimeToChangeState m =
     (stateDuration (trafficLight m)
        \<le> fst (getCurrentTime m) - stateStartTime (trafficLight m),
      snd (getCurrentTime m))"
  by (simp add: isTimeToChangeState_def getCurrentTime_def)

lemma trafficLight_displayStatus [simp]:
  "trafficLight (displayStatus m) = trafficLight m"
  by (simp add: displayStatus_def)

lemma runStateMachine_idle:
  "\<not> fst (isTimeToChangeState m) \<Longrightarrow> trafficLight (runStateMachine m) = trafficLight m"
  by (simp add: runStateMachine_def isTimeToChangeState_eq)

lemma runStateMachine_expired:
  "fst (isTimeToChangeState m) \<Longrightarrow>
   trafficLight (runStateMachine m) = trafficLight (timerExpired (snd (getCurrentTime m)))"
  by (simp add: runStateMachine_def isTimeToChangeState_eq)

lemma runStateMachine_idle_eq:
  assumes "\<not> fst (isTimeToChangeState m)"
  shows "runStateMachine m = m\<lparr> simulatedTime := simulatedTime m + 2000 \<rparr>"
  using assms
  by (simp add: runStateMachine_def isTimeToChangeState_eq displayStatus_def
      getCurrentTime_def)

lemma timerExpired_ERROR:
  "currentState (trafficLight m) = STATE_ERROR \<Longrightarrow>
   trafficLight (timerExpired m) = trafficLight m"
  by (simp add: timerExpired_def hw_def)

subsection \<open>The concrete states\<close>

lemma red_entered_eq:
  "red_entered =
     \<lparr> trafficLight =
         \<lparr> currentState = STATE_RED, previousState = STATE_RED, stateStartTime = 1000,
           stateDuration = 10000, pedestrianRequested = False, emergencyMode = False,
           totalCycles = 0, errorFlag = False \<rparr>,
       simulatedTime = 1000, redFlashing = False,
       hw_trace = [RedOff, GreenOff, YellowOff, PedestrianOff, RedOn, PedestrianOn] \<rparr>"
  by (simp add: red_entered_def initial_machine_def initial_trafficLight_def fsm_defs Let_def)

lemma green_entered_eq:
  "green_entered =
     \<lparr> trafficLight =
         \<lparr> currentState = STATE_GREEN, previousState = STATE_RED, stateStartTime = 2000,
           stateDuration = 15000, pedestrianRequested = False, emergencyMode = False,
           totalCycles = 0, errorFlag = False \<rparr>,
       simulatedTime = 2000, redFlashing = False,
       hw_trace = [RedOff, GreenOff, YellowOff, PedestrianOff, RedOn, PedestrianOn,
                   RedOff, GreenOff, YellowOff, PedestrianOff, GreenOn, PedestrianOff] \<rparr>"
  by (simp add: green_entered_def red_entered_eq fsm_defs Let_def)

lemma error_entered_eq:
  "error_entered =
     \<lparr> trafficLight =
         \<lparr> currentState = STATE_ERROR, previousState = STATE_RED, stateStartTime = 2000,
           stateDuration = 1000, pedestrianRequested = False, emergencyMode = False,
           totalCycles = 0, errorFlag = True \<rparr>,
       simulatedTime = 2000, redFlashing = False,
       hw_trace = [RedOff, GreenOff, YellowOff, PedestrianOff, RedOn, PedestrianOn,
                   RedOff, GreenOff, YellowOff, PedestrianOff, EmergencyAlarm] \<rparr>"
  by (simp add: error_entered_def red_entered_eq fsm_defs Let_def)

text \<open>
  With no event arriving, every call of \<open>runStateMachine\<close> reads the clock twice. Entered
  at time 1000, the red state is left untouched by the first five calls, which bring the
  clock to 11000.
\<close>

lemma red_at_idle:
  assumes "t + 1000 - 1000 < (10000 :: 32 word)"
  shows "runStateMachine (red_at t) = red_at (t + 2000)"
proof -
  have "\<not> fst (isTimeToChangeState (red_at t))"
    using assms
    by (simp add: isTimeToChangeState_eq red_at_def red_entered_eq getCurrentTime_def not_le)
  then show ?thesis
    by (simp add: runStateMachine_idle_eq red_at_def)
qed

lemma red_five_idle_steps: "(runStateMachine ^^ 5) red_entered = red_at 11000"
proof -
  have 0: "red_entered = red_at 1000"
    by (simp add: red_at_def red_entered_eq)
  have 1: "runStateMachine (red_at 1000) = red_at 3000"
    using red_at_idle [of 1000] by simp
  have 2: "runStateMachine (red_at 3000) = red_at 5000"
    using red_at_idle [of 3000] by simp
  have 3: "runStateMachine (red_at 5000) = red_at 7000"
    using red_at_idle [of 5000] by simp
  have 4: "runStateMachine (red_at 7000) = red_at 9000"
    using red_at_idle [of 7000] by simp
  have 5: "runStateMachine (red_at 9000) = red_at 11000"
    using red_at_idle [of 9000] by simp
  have "(runStateMachine ^^ 5) red_entered =
        runStateMachine (runStateMachine (runStateMachine (runStateMachine
          (runStateMachine red_entered))))"
    by (simp add: eval_nat_numeral)
  then show ?thesis
    by (simp only: 0 1 2 3 4 5)
qed

subsection \<open>Reset\<close>

text \<open>
  Claim C1. From every state of the machine, whatever the current state and the three
  flags are, handling \<open>EVENT_RESET\<close> leaves \<open>currentState = STATE_RED\<close> and
  \<open>pedestrianRequested\<close>, \<open>emergencyMode\<close> and \<open>errorFlag\<close> all cleared.
\<close>

theorem reset_forces_safe_state:
  "currentState (trafficLight (handleEvent EVENT_RESET m)) = STATE_RED
   \<and> \<not> pedestrianRequested (trafficLight (handleEvent EVENT_RESET m))
   \<and> \<not> emergencyMode (trafficLight (handleEvent EVENT_RESET m))
   \<and> \<not> errorFlag (trafficLight (handleEvent EVENT_RESET m))"
  by (simp add: enterState_RED_fields)

subsection \<open>A step before the duration has elapsed\<close>

text \<open>
  Claim C3. \<open>runStateMachine\<close> takes no event. If the time it measures in the current
  state (its clock reading minus \<open>stateStartTime\<close>) is strictly below \<open>stateDuration\<close>,
  then \<open>currentState\<close> is the same after the call as before; indeed the whole
  \<open>TrafficLightSystem\<close> is.
\<close>

theorem idle_step_keeps_state:
  assumes "fst (getCurrentTime m) - stateStartTime (trafficLight m)
             < stateDuration (trafficLight m)"
  shows "currentState (trafficLight (runStateMachine m)) = currentState (trafficLight m)
         \<and> trafficLight (runStateMachine m) = trafficLight m"
proof -
  from assms have "\<not> fst (isTimeToChangeState m)"
    by (simp add: isTimeToChangeState_eq not_le)
  then show ?thesis
    by (simp add: runStateMachine_idle)
qed

theorem idle_step_keeps_state_witness:
  "fst (getCurrentTime red_entered) - stateStartTime (trafficLight red_entered)
     < stateDuration (trafficLight red_entered)
   \<and> currentState (trafficLight (runStateMachine red_entered)) = STATE_RED"
proof -
  have h: "fst (getCurrentTime red_entered) - stateStartTime (trafficLight red_entered)
             < stateDuration (trafficLight red_entered)"
    by (simp add: red_entered_eq getCurrentTime_def)
  show ?thesis
    using h idle_step_keeps_state [OF h] by (simp add: red_entered_eq)
qed

subsection \<open>Red times out to red-yellow\<close>

text \<open>
  Claim C4. Entering \<open>STATE_RED\<close> sets the duration to 10000 ms. In \<open>STATE_RED\<close> with
  \<open>pedestrianRequested\<close> false, handling the timer-expired event leads to
  \<open>STATE_RED_YELLOW\<close>; and so does a call of \<open>runStateMachine\<close> (no external event) once
  the measured time in the state has reached the duration.
\<close>

theorem red_times_out_to_red_yellow:
  assumes "currentState (trafficLight m) = STATE_RED"
    and "\<not> pedestrianRequested (trafficLight m)"
  shows "stateDuration (trafficLight (enterState STATE_RED m0)) = 10000
    \<and> currentState (trafficLight (handleEvent EVENT_TIMER_EXPIRED m)) = STATE_RED_YELLOW
    \<and> (stateDuration (trafficLight m)
          \<le> fst (getCurrentTime m) - stateStartTime (trafficLight m)
        \<longrightarrow> currentState (trafficLight (runStateMachine m)) = STATE_RED_YELLOW)"
proof -
  have a: "currentState (trafficLight (handleEvent EVENT_TIMER_EXPIRED m)) = STATE_RED_YELLOW"
    using assms by (simp add: timerExpired_def)
  have b: "currentState (trafficLight (runStateMachine m)) = STATE_RED_YELLOW"
    if "stateDuration (trafficLight m)
          \<le> fst (getCurrentTime m) - stateStartTime (trafficLight m)"
  proof -
    from that have "fst (isTimeToChangeState m)"
      by (simp add: isTimeToChangeState_eq)
    then have "trafficLight (runStateMachine m)
                 = trafficLight (timerExpired (snd (getCurrentTime m)))"
      by (rule runStateMachine_expired)
    then show ?thesis
      using assms by (simp add: timerExpired_def)
  qed
  from a b show ?thesis
    by (simp add: enterState_RED_fields)
qed

text \<open>
  The witness is the state reached from the start of \<open>main\<close> by five calls of
  \<open>runStateMachine\<close> without events (\<open>red_five_idle_steps\<close>): the sixth call reads the
  clock at 12000, 11000 ms after the state was entered.
\<close>

theorem red_times_out_to_red_yellow_witness:
  "currentState (trafficLight (red_at 11000)) = STATE_RED
   \<and> \<not> pedestrianRequested (trafficLight (red_at 11000))
   \<and> stateDuration (trafficLight (red_at 11000))
       \<le> fst (getCurrentTime (red_at 11000)) - stateStartTime (trafficLight (red_at 11000))
   \<and> stateDuration (trafficLight (enterState STATE_RED initial_machine)) = 10000
   \<and> currentState (trafficLight (handleEvent EVENT_TIMER_EXPIRED (red_at 11000)))
       = STATE_RED_YELLOW
   \<and> currentState (trafficLight (runStateMachine (red_at 11000))) = STATE_RED_YELLOW"
proof -
  have h1: "currentState (trafficLight (red_at 11000)) = STATE_RED"
    by (simp add: red_at_def red_entered_eq)
  have h2: "\<not> pedestrianRequested (trafficLight (red_at 11000))"
    by (simp add: red_at_def red_entered_eq)
  have h3: "stateDuration (trafficLight (red_at 11000))
       \<le> fst (getCurrentTime (red_at 11000)) - stateStartTime (trafficLight (red_at 11000))"
    by (simp add: red_at_def red_entered_eq getCurrentTime_def)
  show ?thesis
    using h1 h2 h3 red_times_out_to_red_yellow [OF h1 h2, of initial_machine] by blast
qed

subsection \<open>The duration is measured from state entry\<close>

text \<open>
  Claim C5. \<open>enterState\<close> records its clock reading in \<open>stateStartTime\<close>. The timeout test
  \<open>isTimeToChangeState\<close> holds exactly when its clock reading minus \<open>stateStartTime\<close>
  (in \<open>uint32_t\<close> arithmetic) is at least \<open>stateDuration\<close>. Neither the test nor
  \<open>displayStatus\<close> changes the \<open>TrafficLightSystem\<close>, and a call of \<open>runStateMachine\<close>
  leaves \<open>stateStartTime\<close> as it was whenever the timeout has not fired, and also in
  \<open>STATE_ERROR\<close>, where a timeout enters no state.
\<close>

theorem timeout_measured_from_state_entry:
  "stateStartTime (trafficLight (enterState s m)) = fst (getCurrentTime m)
   \<and> fst (isTimeToChangeState m)
       = (fst (getCurrentTime m) - stateStartTime (trafficLight m)
            \<ge> stateDuration (trafficLight m))
   \<and> trafficLight (snd (isTimeToChangeState m)) = trafficLight m
   \<and> trafficLight (displayStatus m) = trafficLight m
   \<and> (\<not> fst (isTimeToChangeState m) \<longrightarrow>
        stateStartTime (trafficLight (runStateMachine m)) = stateStartTime (trafficLight m))
   \<and> (currentState (trafficLight m) = STATE_ERROR \<longrightarrow>
        stateStartTime (trafficLight (runStateMachine m)) = stateStartTime (trafficLight m))"
proof -
  have err: "stateStartTime (trafficLight (runStateMachine m))
               = stateStartTime (trafficLight m)"
    if "currentState (trafficLight m) = STATE_ERROR"
  proof (cases "fst (isTimeToChangeState m)")
    case True
    then have "trafficLight (runStateMachine m)
                 = trafficLight (timerExpired (snd (getCurrentTime m)))"
      by (rule runStateMachine_expired)
    also have "\<dots> = trafficLight m"
      using that by (simp add: timerExpired_ERROR)
    finally show ?thesis by simp
  next
    case False
    then show ?thesis by (simp add: runStateMachine_idle)
  qed
  show ?thesis
    using err
    by (simp add: stateStartTime_enterState fst_getCurrentTime isTimeToChangeState_eq
        runStateMachine_idle)
qed

theorem timeout_measured_from_state_entry_witness:
  "\<not> fst (isTimeToChangeState red_entered)
   \<and> stateStartTime (trafficLight (runStateMachine red_entered)) = 1000
   \<and> currentState (trafficLight error_entered) = STATE_ERROR
   \<and> fst (isTimeToChangeState error_entered)
   \<and> stateStartTime (trafficLight (runStateMachine error_entered)) = 2000"
proof -
  have h1: "\<not> fst (isTimeToChangeState red_entered)"
    by (simp add: isTimeToChangeState_eq getCurrentTime_def red_entered_eq)
  have h2: "currentState (trafficLight error_entered) = STATE_ERROR"
    by (simp add: error_entered_eq)
  have h3: "fst (isTimeToChangeState error_entered)"
    by (simp add: isTimeToChangeState_eq getCurrentTime_def error_entered_eq)
  show ?thesis
    using h1 h2 h3
      timeout_measured_from_state_entry [of STATE_RED red_entered]
      timeout_measured_from_state_entry [of STATE_RED error_entered]
    by (simp add: red_entered_eq error_entered_eq)
qed

subsection \<open>The car sensor extends green\<close>

lemma sensor_events_in_green:
  assumes "currentState (trafficLight m) = STATE_GREEN"
  shows "(handleEvent EVENT_SENSOR_TRIGGERED ^^ k) m =
           m\<lparr> trafficLight := (trafficLight m)
                \<lparr> stateDuration := stateDuration (trafficLight m) + 5000 * of_nat k \<rparr> \<rparr>"
  using assms by (induction k) (simp_all add: algebra_simps)

lemma green_wrapped_eq:
  "green_wrapped =
     green_entered\<lparr> trafficLight := (trafficLight green_entered)
                      \<lparr> stateDuration := 4294965000 \<rparr> \<rparr>"
proof -
  have g: "currentState (trafficLight green_entered) = STATE_GREEN"
    by (simp add: green_entered_eq)
  show ?thesis
    unfolding green_wrapped_def sensor_events_in_green [OF g]
    by (simp add: green_entered_eq)
qed

lemma word32_add_5000_exact:
  "(unat (a + 5000) = unat a + 5000) = (a \<le> (4294962295 :: 32 word))"
proof -
  have b: "unat a < 4294967296"
    using unsigned_less [of a, where ?'a = nat] by simp
  have s: "unat (a + 5000) = (unat a + 5000) mod 4294967296"
    by (simp add: unat_word_ariths)
  have "((unat a + 5000) mod 4294967296 = unat a + 5000) = (unat a \<le> 4294962295)"
  proof (cases "unat a \<le> 4294962295")
    case True
    then show ?thesis by simp
  next
    case False
    with b have "(unat a + 5000) mod 4294967296 = unat a + 5000 - 4294967296"
      by (simp add: mod_if)
    with False show ?thesis by simp
  qed
  then show ?thesis
    by (simp add: word_le_nat_alt s)
qed

text \<open>
  Claim C6, as the code has it. In \<open>STATE_GREEN\<close>, handling \<open>EVENT_SENSOR_TRIGGERED\<close> adds
  5000 to \<open>stateDuration\<close> in \<open>uint32_t\<close> arithmetic: the new value minus the old one is
  5000 modulo \<open>2 ^ 32\<close>, and the number grows by exactly 5000 exactly when the old value
  is at most 4294962295. Nothing else changes: \<open>currentState\<close>, \<open>stateStartTime\<close> and every
  other field keep their values. In every other state the event leaves the machine as it
  was.
\<close>

theorem sensor_trigger_frame:
  "(currentState (trafficLight m) = STATE_GREEN \<longrightarrow>
      handleEvent EVENT_SENSOR_TRIGGERED m =
        m\<lparr> trafficLight := (trafficLight m)
             \<lparr> stateDuration := stateDuration (trafficLight m) + 5000 \<rparr> \<rparr>
      \<and> stateDuration (trafficLight (handleEvent EVENT_SENSOR_TRIGGERED m))
           - stateDuration (trafficLight m) = 5000
      \<and> (unat (stateDuration (trafficLight (handleEvent EVENT_SENSOR_TRIGGERED m)))
             = unat (stateDuration (trafficLight m)) + 5000)
          = (stateDuration (trafficLight m) \<le> 4294962295)
      \<and> currentState (trafficLight (handleEvent EVENT_SENSOR_TRIGGERED m)) = STATE_GREEN
      \<and> stateStartTime (trafficLight (handleEvent EVENT_SENSOR_TRIGGERED m))
           = stateStartTime (trafficLight m)
      \<and> previousState (trafficLight (handleEvent EVENT_SENSOR_TRIGGERED m))
           = previousState (trafficLight m)
      \<and> pedestrianRequested (trafficLight (handleEvent EVENT_SENSOR_TRIGGERED m))
           = pedestrianRequested (trafficLight m)
      \<and> emergencyMode (trafficLight (handleEvent EVENT_SENSOR_TRIGGERED m))
           = emergencyMode (trafficLight m)
      \<and> totalCycles (trafficLight (handleEvent EVENT_SENSOR_TRIGGERED m))
           = totalCycles (trafficLight m)
      \<and> errorFlag (trafficLight (handleEvent EVENT_SENSOR_TRIGGERED m))
           = errorFlag (trafficLight m))
   \<and> (currentState (trafficLight m) \<noteq> STATE_GREEN \<longrightarrow>
        handleEvent EVENT_SENSOR_TRIGGERED m = m)"
  by (simp add: word32_add_5000_exact)

theorem sensor_trigger_frame_witness:
  "currentState (trafficLight green_entered) = STATE_GREEN
   \<and> stateDuration (trafficLight green_entered) \<le> 4294962295
   \<and> stateDuration (trafficLight (handleEvent EVENT_SENSOR_TRIGGERED green_entered)) = 20000
   \<and> unat (stateDuration (trafficLight (handleEvent EVENT_SENSOR_TRIGGERED green_entered)))
       = unat (stateDuration (trafficLight green_entered)) + 5000
   \<and> stateStartTime (trafficLight (handleEvent EVENT_SENSOR_TRIGGERED green_entered)) = 2000
   \<and> currentState (trafficLight red_entered) \<noteq> STATE_GREEN
   \<and> handleEvent EVENT_SENSOR_TRIGGERED red_entered = red_entered"
proof -
  have h1: "currentState (trafficLight green_entered) = STATE_GREEN"
    by (simp add: green_entered_eq)
  have h2: "stateDuration (trafficLight green_entered) \<le> 4294962295"
    by (simp add: green_entered_eq)
  have h3: "currentState (trafficLight red_entered) \<noteq> STATE_GREEN"
    by (simp add: red_entered_eq)
  show ?thesis
    using h1 h2 h3 sensor_trigger_frame [of green_entered]
      sensor_trigger_frame [of red_entered]
    by (simp add: green_entered_eq)
qed

text \<open>
  The claim as stated fails at the wrap-around: after 858990 sensor events in one green
  phase the duration is 4294965000, and the next event leaves 2704.
\<close>

theorem sensor_trigger_wraps_counterexample:
  "currentState (trafficLight green_wrapped) = STATE_GREEN
   \<and> stateDuration (trafficLight green_wrapped) = 4294965000
   \<and> stateDuration (trafficLight (handleEvent EVENT_SENSOR_TRIGGERED green_wrapped)) = 2704
   \<and> unat (stateDuration (trafficLight (handleEvent EVENT_SENSOR_TRIGGERED green_wrapped)))
       \<noteq> unat (stateDuration (trafficLight green_wrapped)) + 5000"
  by (simp add: green_wrapped_eq green_entered_eq)


subsection \<open>The clock\<close>

lemma nth_call_eq:
  "nth_call n m =
     (simulatedTime m + 1000 * (of_nat n + 1),
      m\<lparr> simulatedTime := simulatedTime m + 1000 * (of_nat n + 1) \<rparr>)"
  by (induction n) (simp_all add: getCurrentTime_def algebra_simps)

lemma word32_add_1000_less:
  "(a < a + 1000) = (a \<le> (4294966295 :: 32 word))"
proof -
  have b: "unat a < 4294967296"
    using unsigned_less [of a, where ?'a = nat] by simp
  have s: "unat (a + 1000) = (unat a + 1000) mod 4294967296"
    by (simp add: unat_word_ariths)
  have "(unat a < (unat a + 1000) mod 4294967296) = (unat a \<le> 4294966295)"
  proof (cases "unat a \<le> 4294966295")
    case True
    then show ?thesis by simp
  next
    case False
    with b have "(unat a + 1000) mod 4294967296 = unat a + 1000 - 4294967296"
      by (simp add: mod_if)
    with False show ?thesis by simp
  qed
  then show ?thesis
    by (simp add: word_less_nat_alt word_le_nat_alt s)
qed

lemma initial_reading:
  assumes "n < 4294967"
  shows "unat (1000 * (of_nat n + 1) :: 32 word) = 1000 * (n + 1)"
proof (rule of_nat_inverse)
  show "word_of_nat (1000 * (n + 1)) = (1000 * (of_nat n + 1) :: 32 word)"
    by simp
  show "1000 * (n + 1) < 2 ^ LENGTH(32)"
    using assms by simp
qed

text \<open>
  Claim C8, as the code has it. Each call of \<open>getCurrentTime\<close> returns the previous
  timestamp plus 1000 modulo \<open>2 ^ 32\<close>, so the \<open>uint32_t\<close> difference between successive
  timestamps is always 1000. The new timestamp is strictly greater than the previous one
  exactly when the previous one is at most 4294966295; counted from program start, that
  covers the first 4294967 calls.
\<close>

theorem clock_advances_modulo:
  "fst (nth_call (Suc n) m) = fst (nth_call n m) + 1000
   \<and> fst (nth_call (Suc n) m) - fst (nth_call n m) = 1000
   \<and> (fst (nth_call n m) < fst (nth_call (Suc n) m)) = (fst (nth_call n m) \<le> 4294966295)
   \<and> (n < 4294966 \<longrightarrow>
        fst (nth_call n initial_machine) < fst (nth_call (Suc n) initial_machine))"
proof -
  have step: "fst (nth_call (Suc n) m) = fst (nth_call n m) + 1000" for m
    by (simp add: nth_call_eq getCurrentTime_def algebra_simps)
  have small: "fst (nth_call n initial_machine) \<le> 4294966295" if "n < 4294966"
  proof -
    from that have "unat (1000 * (of_nat n + 1) :: 32 word) = 1000 * (n + 1)"
      by (intro initial_reading) simp
    with that show ?thesis
      by (simp add: nth_call_eq initial_machine_def word_le_nat_alt)
  qed
  show ?thesis
    using small by (simp only: step word32_add_1000_less) simp
qed

theorem clock_advances_modulo_witness:
  "(0 :: nat) < 4294966
   \<and> fst (nth_call 0 initial_machine) = 1000
   \<and> fst (nth_call (Suc 0) initial_machine) = 2000
   \<and> fst (nth_call 0 initial_machine) < fst (nth_call (Suc 0) initial_machine)"
  using clock_advances_modulo [of 0 initial_machine]
  by (simp add: getCurrentTime_def initial_machine_def)

text \<open>
  The claim as stated fails at the wrap-around: counted from program start, call number
  4294967 returns 4294967000 and call number 4294968 returns 704.
\<close>

theorem clock_wraps_counterexample:
  "\<not> fst (nth_call 4294966 initial_machine) < fst (nth_call 4294967 initial_machine)"
  by (simp add: nth_call_eq initial_machine_def)

lemma clock_wrap_values:
  "fst (nth_call 4294966 initial_machine) = 4294967000
   \<and> fst (nth_call 4294967 initial_machine) = 704"
  by (simp add: nth_call_eq initial_machine_def)

section \<open>Properties of the bounded queue\<close>

lemma scenario_B_eq: "scenario_B = \<lparr> capacity = 2, items = [''A'', ''B''] \<rparr>"
  by (simp add: scenario_B_def queue_send_def queue_create_def)

text \<open>
  Claim C2. On a queue that holds as many items as its capacity, a send with timeout 0
  returns \<open>QueueFull\<close> and the queue is exactly as before. If the capacity is not zero,
  one receive then returns the oldest item, and a send after it succeeds and appends its
  item behind the remaining ones.
\<close>

theorem full_queue_rejects_send:
  assumes "length (items q) = capacity q"
  shows "queue_send x 0 q = (Inl QueueFull, q)
    \<and> (0 < capacity q \<longrightarrow>
         fst (queue_receive t q) = Inr (hd (items q))
         \<and> snd (queue_receive t q) = q\<lparr> items := tl (items q) \<rparr>
         \<and> queue_send x t' (snd (queue_receive t q))
             = (Inr (), q\<lparr> items := tl (items q) @ [x] \<rparr>))"
proof -
  have full: "queue_send x 0 q = (Inl QueueFull, q)"
    using assms by (simp add: queue_send_def)
  have rest: "fst (queue_receive t q) = Inr (hd (items q))
         \<and> snd (queue_receive t q) = q\<lparr> items := tl (items q) \<rparr>
         \<and> queue_send x t' (snd (queue_receive t q))
             = (Inr (), q\<lparr> items := tl (items q) @ [x] \<rparr>)"
    if "0 < capacity q"
  proof -
    from that assms obtain y ys where i: "items q = y # ys"
      by (cases "items q") auto
    with assms have "length ys < capacity q"
      by simp
    with i show ?thesis
      by (simp add: queue_receive_def queue_send_def)
  qed
  from full rest show ?thesis
    by blast
qed

theorem full_queue_rejects_send_witness:
  "length (items scenario_B) = capacity scenario_B
   \<and> 0 < capacity scenario_B
   \<and> queue_send ''C'' 0 scenario_B = (Inl QueueFull, scenario_B)
   \<and> fst (queue_receive 0 scenario_B) = Inr ''A''
   \<and> queue_send ''C'' 0 (snd (queue_receive 0 scenario_B))
       = (Inr (), \<lparr> capacity = 2, items = [''B'', ''C''] \<rparr>)"
proof -
  have h1: "length (items scenario_B) = capacity scenario_B"
    by (simp add: scenario_B_eq)
  have h2: "0 < capacity scenario_B"
    by (simp add: scenario_B_eq)
  show ?thesis
    using h1 h2 full_queue_rejects_send [OF h1, of "''C''" 0 0]
    by (auto simp add: scenario_B_eq)
qed

section \<open>Properties of the scheduler\<close>

lemma pick_None: "(pick ts = None) = (\<forall>t \<in> set ts. state t \<noteq> Ready)"
  by (induction ts) (auto split: option.splits)

lemma pick_Some:
  "pick ts = Some i \<Longrightarrow>
     i < length ts \<and> state (ts ! i) = Ready
     \<and> (\<forall>j < length ts. state (ts ! j) = Ready \<longrightarrow> priority (ts ! j) \<le> priority (ts ! i))
     \<and> (\<forall>j < i. state (ts ! j) = Ready \<longrightarrow> priority (ts ! j) < priority (ts ! i))"
proof (induction ts arbitrary: i)
  case Nil
  then show ?case by simp
next
  case (Cons t ts)
  show ?case
  proof (cases "pick ts")
    case None
    with Cons.prems have i: "i = 0" and r: "state t = Ready"
      by (simp_all split: if_splits)
    from None have "\<forall>u \<in> set ts. state u \<noteq> Ready"
      by (simp add: pick_None)
    then have "\<forall>j < length ts. state (ts ! j) \<noteq> Ready"
      by simp
    with i r show ?thesis
      by (auto simp: nth_Cons split: nat.splits)
  next
    case (Some k)
    note ih = Cons.IH [OF Some]
    show ?thesis
    proof (cases "state t = Ready \<and> priority (ts ! k) \<le> priority t")
      case True
      with Some Cons.prems have i: "i = 0"
        by simp
      from True ih have "\<forall>j < length ts. state (ts ! j) = Ready \<longrightarrow>
                           priority (ts ! j) \<le> priority t"
        by force
      with i True show ?thesis
        by (auto simp: nth_Cons split: nat.splits)
    next
      case False
      with Some Cons.prems have i: "i = Suc k"
        by auto
      from False have low: "state t = Ready \<longrightarrow> priority t < priority (ts ! k)"
        by auto
      from i ih low show ?thesis
        by (auto simp: nth_Cons less_Suc_eq_0_disj split: nat.splits)
    qed
  qed
qed

lemma running_Some:
  "running ts = Some r \<Longrightarrow> r < length ts \<and> state (ts ! r) = Running"
  by (induction ts arbitrary: r) (auto split: if_splits)

lemma state_set_state:
  "i < length ts \<Longrightarrow>
     state (set_state i s ts ! j) = (if j = i then s else state (ts ! j))"
  by (simp add: set_state_def nth_list_update)

lemma priority_set_state [simp]:
  "priority (set_state i s ts ! j) = priority (ts ! j)"
  by (cases "i < length ts") (simp_all add: set_state_def nth_list_update list_update_beyond)

lemma length_set_state [simp]: "length (set_state i s ts) = length ts"
  by (simp add: set_state_def)

lemma schedule_preempts:
  assumes "running ts = Some r" and "pick ts = Some i"
    and "priority (ts ! r) < priority (ts ! i)"
  shows "state (schedule ts ! i) = Running \<and> state (schedule ts ! r) = Ready"
proof -
  from assms(1) have r: "r < length ts" "state (ts ! r) = Running"
    by (simp_all add: running_Some)
  from assms(2) have i: "i < length ts" "state (ts ! i) = Ready"
    by (simp_all add: pick_Some)
  from r i have ne: "r \<noteq> i"
    by auto
  from assms have "schedule ts = set_state i Running (set_state r Ready ts)"
    by (simp add: schedule_def)
  with r i ne show ?thesis
    by (simp add: state_set_state)
qed

lemma schedule_keeps:
  assumes "running ts = Some r" and "pick ts = Some i"
    and "priority (ts ! i) \<le> priority (ts ! r)"
  shows "schedule ts = ts"
  using assms by (simp add: schedule_def)

lemma set_state_Cons:
  "set_state 0 s (t # ts) = t\<lparr> state := s \<rparr> # ts"
  "set_state (Suc i) s (t # ts) = t # set_state i s ts"
  by (simp_all add: set_state_def)

lemma running_set_state:
  "running ts = None \<Longrightarrow> i < length ts \<Longrightarrow> running (set_state i Running ts) = Some i"
proof (induction ts arbitrary: i)
  case Nil
  then show ?case by simp
next
  case (Cons t ts)
  then show ?case
    by (cases i) (auto simp: set_state_Cons split: if_splits)
qed

lemma set_state_twice: "set_state i s (set_state i s' ts) = set_state i s ts"
  by (cases "i < length ts") (simp_all add: set_state_def list_update_beyond)

lemma name_set_state: "name (set_state i s ts ! j) = name (ts ! j)"
  by (cases "i < length ts")
    (simp_all add: set_state_def nth_list_update list_update_beyond)

lemma run_once_no_running:
  assumes "running ts = None"
  shows "run_once ts =
           (case pick ts of
              None \<Rightarrow> (None, ts)
            | Some i \<Rightarrow> (Some (name (ts ! i)), set_state i Blocked ts))"
proof (cases "pick ts")
  case None
  with assms show ?thesis
    by (simp add: run_once_def schedule_def yield_running_def)
next
  case (Some i)
  then have "i < length ts"
    by (simp add: pick_Some)
  with assms have r: "running (set_state i Running ts) = Some i"
    by (rule running_set_state)
  from Some assms have "schedule ts = set_state i Running ts"
    by (simp add: schedule_def)
  with Some r show ?thesis
    by (simp add: run_once_def yield_running_def set_state_twice name_set_state)
qed

lemma setup_tasks_eq:
  "setup_tasks =
     [ready_task ''LED Control'' 1, ready_task ''Sensor Reading'' 2,
      ready_task ''Button Handler'' 3, ready_task ''Display'' 1, ready_task ''Watchdog'' 4]"
  by (simp add: setup_tasks_def register_task_def ready_task_def)

lemmas sched_eval = run_once_no_running set_state_Cons ready_task_def

lemma setup_run_order:
  "run_order 5 setup_tasks =
     [Some ''Watchdog'', Some ''Button Handler'', Some ''Sensor Reading'',
      Some ''LED Control'', Some ''Display'']"
  by (simp add: setup_tasks_eq eval_nat_numeral sched_eval)

lemma three_run_order:
  assumes "p1 < p2" "p2 < p3"
    and "ts \<in> {[ready_task a p1, ready_task b p2, ready_task c p3],
               [ready_task a p1, ready_task c p3, ready_task b p2],
               [ready_task b p2, ready_task a p1, ready_task c p3],
               [ready_task b p2, ready_task c p3, ready_task a p1],
               [ready_task c p3, ready_task a p1, ready_task b p2],
               [ready_task c p3, ready_task b p2, ready_task a p1]}"
  shows "run_order 3 ts = [Some c, Some b, Some a]"
  using assms by (auto simp add: eval_nat_numeral sched_eval)


text \<open>
  Claim C9. Three tasks of priorities \<open>p1 < p2 < p3\<close>, all ready and registered in any
  order, run highest priority first, then the middle one, then the lowest, as each yields
  in turn. The task picked is always a ready one of highest priority, and the
  earliest-registered among the ready tasks of that priority. A ready task of strictly
  higher priority preempts the running task, and one of equal or lower priority does
  not. The five tasks that \<open>setup\<close> registers run in the order Watchdog, Button Handler,
  Sensor Reading, LED Control, Display.
\<close>

theorem scheduler_runs_by_priority:
  "(p1 < p2 \<and> p2 < p3
      \<and> ts \<in> {[ready_task a p1, ready_task b p2, ready_task c p3],
                [ready_task a p1, ready_task c p3, ready_task b p2],
                [ready_task b p2, ready_task a p1, ready_task c p3],
                [ready_task b p2, ready_task c p3, ready_task a p1],
                [ready_task c p3, ready_task a p1, ready_task b p2],
                [ready_task c p3, ready_task b p2, ready_task a p1]}
      \<longrightarrow> run_order 3 ts = [Some c, Some b, Some a])
   \<and> (pick us = Some i \<longrightarrow>
        i < length us \<and> state (us ! i) = Ready
        \<and> (\<forall>j < length us. state (us ! j) = Ready \<longrightarrow>
              priority (us ! j) \<le> priority (us ! i))
        \<and> (\<forall>j < i. state (us ! j) = Ready \<longrightarrow> priority (us ! j) < priority (us ! i)))
   \<and> (pick us = None) = (\<forall>t \<in> set us. state t \<noteq> Ready)
   \<and> (running us = Some r \<and> pick us = Some i \<and> priority (us ! r) < priority (us ! i)
        \<longrightarrow> state (schedule us ! i) = Running \<and> state (schedule us ! r) = Ready)
   \<and> (running us = Some r \<and> pick us = Some i \<and> priority (us ! i) \<le> priority (us ! r)
        \<longrightarrow> schedule us = us)
   \<and> run_order 5 setup_tasks =
        [Some ''Watchdog'', Some ''Button Handler'', Some ''Sensor Reading'',
         Some ''LED Control'', Some ''Display'']"
  using three_run_order [of p1 p2 p3 ts a b c] pick_Some [of us i] pick_None [of us]
    schedule_preempts [of us r i] schedule_keeps [of us r i] setup_run_order
  by blast

theorem scheduler_runs_by_priority_witness:
  "run_order 3 three_ready = [Some ''P3'', Some ''P2'', Some ''P1'']
   \<and> pick setup_tasks = Some 4
   \<and> state (setup_tasks ! 4) = Ready
   \<and> pick all_blocked = None
   \<and> running button_wakes = Some 0 \<and> pick button_wakes = Some 2
   \<and> priority (button_wakes ! 0) < priority (button_wakes ! 2)
   \<and> state (schedule button_wakes ! 2) = Running
   \<and> state (schedule button_wakes ! 0) = Ready
   \<and> running display_ready = Some 0 \<and> pick display_ready = Some 3
   \<and> priority (display_ready ! 3) \<le> priority (display_ready ! 0)
   \<and> schedule display_ready = display_ready"
proof -
  have o: "(1 :: int) < 2 \<and> (2 :: int) < 3
      \<and> three_ready \<in> {[ready_task ''P1'' 1, ready_task ''P2'' 2, ready_task ''P3'' 3],
                [ready_task ''P1'' 1, ready_task ''P3'' 3, ready_task ''P2'' 2],
                [ready_task ''P2'' 2, ready_task ''P1'' 1, ready_task ''P3'' 3],
                [ready_task ''P2'' 2, ready_task ''P3'' 3, ready_task ''P1'' 1],
                [ready_task ''P3'' 3, ready_task ''P1'' 1, ready_task ''P2'' 2],
                [ready_task ''P3'' 3, ready_task ''P2'' 2, ready_task ''P1'' 1]}"
    by (simp add: three_ready_def)
  have p: "pick setup_tasks = Some 4"
    by (simp add: setup_tasks_eq ready_task_def)
  have n: "\<forall>t \<in> set all_blocked. state t \<noteq> Ready"
    by (simp add: all_blocked_def setup_tasks_eq ready_task_def)
  have b: "running button_wakes = Some 0 \<and> pick button_wakes = Some 2
           \<and> priority (button_wakes ! 0) < priority (button_wakes ! 2)"
    by (simp add: button_wakes_def)
  have d: "running display_ready = Some 0 \<and> pick display_ready = Some 3
           \<and> priority (display_ready ! 3) \<le> priority (display_ready ! 0)"
    by (simp add: display_ready_def)
  note S = scheduler_runs_by_priority [of 1 2 3 three_ready "''P1''" "''P2''" "''P3''"
      setup_tasks 4 0]
  note N = scheduler_runs_by_priority [of 1 2 3 three_ready "''P1''" "''P2''" "''P3''"
      all_blocked 4 0]
  note B = scheduler_runs_by_priority [of 1 2 3 three_ready "''P1''" "''P2''" "''P3''"
      button_wakes 2 0]
  note D = scheduler_runs_by_priority [of 1 2 3 three_ready "''P1''" "''P2''" "''P3''"
      display_ready 3 0]
  have 1: "run_order 3 three_ready = [Some ''P3'', Some ''P2'', Some ''P1'']"
    by (rule S [THEN conjunct1, THEN mp, OF o])
  have 2: "state (setup_tasks ! 4) = Ready"
    using S [THEN conjunct2, THEN conjunct1, THEN mp, OF p] by simp
  have 3: "pick all_blocked = None"
    using N [THEN conjunct2, THEN conjunct2, THEN conjunct1] n by simp
  have 4: "state (schedule button_wakes ! 2) = Running
           \<and> state (schedule button_wakes ! 0) = Ready"
    by (rule B [THEN conjunct2, THEN conjunct2, THEN conjunct2, THEN conjunct1, THEN mp,
          OF b])
  have 5: "schedule display_ready = display_ready"
    by (rule D [THEN conjunct2, THEN conjunct2, THEN conjunct2, THEN conjunct2,
          THEN conjunct1, THEN mp, OF d])
  from 1 p 2 3 b 4 d 5 show ?thesis
    by simp
qed


section \<open>Properties of the watchdog\<close>

lemma sensorCheck_frame:
  "systemState (snd (sensorCheck r s)) = systemState s"
  "sensorDataQueue (snd (sensorCheck r s)) = sensorDataQueue s"
  "buttonEventQueue (snd (sensorCheck r s)) = buttonEventQueue s"
  "unhealthyCount (snd (sensorCheck r s)) = unhealthyCount s"
  by (simp_all add: sensorCheck_def)

lemma check_healthy:
  "systemHealthy r s \<Longrightarrow>
   taskWatchdog_check r s = (snd (sensorCheck r s))\<lparr> unhealthyCount := 0 \<rparr>"
  by (simp add: taskWatchdog_check_def)

lemma check_unhealthy_below:
  "\<not> systemHealthy r s \<Longrightarrow> unhealthyCount s + 1 \<le> 5 \<Longrightarrow>
   taskWatchdog_check r s
     = (snd (sensorCheck r s))\<lparr> unhealthyCount := unhealthyCount s + 1 \<rparr>"
  by (simp add: taskWatchdog_check_def Let_def sensorCheck_frame)

lemma check_unhealthy_above:
  "\<not> systemHealthy r s \<Longrightarrow> 5 < unhealthyCount s + 1 \<Longrightarrow>
   taskWatchdog_check r s =
     (snd (sensorCheck r s))
       \<lparr> systemState := (systemState s)\<lparr> alarmActive := True \<rparr>, unhealthyCount := 0 \<rparr>"
  by (simp add: taskWatchdog_check_def Let_def sensorCheck_frame)

lemma low_heap_unhealthy: "freeHeap r < 10000 \<Longrightarrow> \<not> systemHealthy r s"
  by (simp add: systemHealthy_def)

lemma checks_below_threshold:
  assumes "\<forall>r \<in> set rs. freeHeap r < 10000"
    and "unhealthyCount s + int (length rs) \<le> 5"
  shows "unhealthyCount (taskWatchdog_checks rs s) = unhealthyCount s + int (length rs)
         \<and> systemState (taskWatchdog_checks rs s) = systemState s"
  using assms
proof (induction rs arbitrary: s)
  case Nil
  then show ?case by simp
next
  case (Cons r rs)
  from Cons.prems have u: "\<not> systemHealthy r s"
    by (simp add: low_heap_unhealthy)
  from Cons.prems have b: "unhealthyCount s + 1 \<le> 5"
    by simp
  have c: "taskWatchdog_check r s
             = (snd (sensorCheck r s))\<lparr> unhealthyCount := unhealthyCount s + 1 \<rparr>"
    using u b by (rule check_unhealthy_below)
  have "unhealthyCount (taskWatchdog_checks rs (taskWatchdog_check r s))
          = unhealthyCount (taskWatchdog_check r s) + int (length rs)
        \<and> systemState (taskWatchdog_checks rs (taskWatchdog_check r s))
          = systemState (taskWatchdog_check r s)"
    using Cons.prems by (intro Cons.IH) (simp_all add: c)
  then show ?case
    by (simp add: c sensorCheck_frame)
qed

lemma checks_append:
  "taskWatchdog_checks (rs @ rs') s = taskWatchdog_checks rs' (taskWatchdog_checks rs s)"
  by (induction rs arbitrary: s) simp_all

text \<open>
  Claim C7, as the code has it. A healthy check resets \<open>unhealthyCount\<close> to zero. An
  unhealthy check increments it; exactly when the incremented count exceeds 5 the check
  sets \<open>systemState.alarmActive\<close> and puts the count back to zero, and otherwise it leaves
  \<open>systemState\<close> alone. No check changes a queue. Counted from the initial state, up to
  five unhealthy checks in a row leave the alarm off, and the sixth sets it.
\<close>

theorem watchdog_check_effect:
  "(systemHealthy r s \<longrightarrow>
      unhealthyCount (taskWatchdog_check r s) = 0
      \<and> systemState (taskWatchdog_check r s) = systemState s)
   \<and> (\<not> systemHealthy r s \<and> unhealthyCount s + 1 \<le> 5 \<longrightarrow>
        unhealthyCount (taskWatchdog_check r s) = unhealthyCount s + 1
        \<and> systemState (taskWatchdog_check r s) = systemState s)
   \<and> (\<not> systemHealthy r s \<and> 5 < unhealthyCount s + 1 \<longrightarrow>
        unhealthyCount (taskWatchdog_check r s) = 0
        \<and> systemState (taskWatchdog_check r s) = (systemState s)\<lparr> alarmActive := True \<rparr>)
   \<and> sensorDataQueue (taskWatchdog_check r s) = sensorDataQueue s
   \<and> buttonEventQueue (taskWatchdog_check r s) = buttonEventQueue s
   \<and> ((\<forall>x \<in> set rs. freeHeap x < 10000) \<and> length rs \<le> 5 \<longrightarrow>
        unhealthyCount (taskWatchdog_checks rs initial_rtos) = int (length rs)
        \<and> \<not> alarmActive (systemState (taskWatchdog_checks rs initial_rtos))
        \<and> (freeHeap r < 10000 \<and> length rs = 5 \<longrightarrow>
             unhealthyCount (taskWatchdog_checks (rs @ [r]) initial_rtos) = 0
             \<and> alarmActive (systemState (taskWatchdog_checks (rs @ [r]) initial_rtos))))"
proof -
  have h: "unhealthyCount (taskWatchdog_check r s) = 0
           \<and> systemState (taskWatchdog_check r s) = systemState s"
    if "systemHealthy r s"
    using that by (simp add: check_healthy sensorCheck_frame)
  have b: "unhealthyCount (taskWatchdog_check r s) = unhealthyCount s + 1
           \<and> systemState (taskWatchdog_check r s) = systemState s"
    if "\<not> systemHealthy r s" "unhealthyCount s + 1 \<le> 5"
    using that by (simp add: check_unhealthy_below sensorCheck_frame)
  have a: "unhealthyCount (taskWatchdog_check r s) = 0
           \<and> systemState (taskWatchdog_check r s)
               = (systemState s)\<lparr> alarmActive := True \<rparr>"
    if "\<not> systemHealthy r s" "5 < unhealthyCount s + 1"
    using that by (simp add: check_unhealthy_above)
  have q: "sensorDataQueue (taskWatchdog_check r s) = sensorDataQueue s
           \<and> buttonEventQueue (taskWatchdog_check r s) = buttonEventQueue s"
    by (simp add: taskWatchdog_check_def Let_def sensorCheck_frame)
  have t: "unhealthyCount (taskWatchdog_checks rs initial_rtos) = int (length rs)
           \<and> \<not> alarmActive (systemState (taskWatchdog_checks rs initial_rtos))
           \<and> (freeHeap r < 10000 \<and> length rs = 5 \<longrightarrow>
                unhealthyCount (taskWatchdog_checks (rs @ [r]) initial_rtos) = 0
                \<and> alarmActive (systemState (taskWatchdog_checks (rs @ [r]) initial_rtos)))"
    if f: "\<forall>x \<in> set rs. freeHeap x < 10000" and l: "length rs \<le> 5"
  proof -
    let ?s = "taskWatchdog_checks rs initial_rtos"
    have "unhealthyCount initial_rtos + int (length rs) \<le> 5"
      using l by (simp add: initial_rtos_def)
    with f have c: "unhealthyCount ?s = unhealthyCount initial_rtos + int (length rs)
                    \<and> systemState ?s = systemState initial_rtos"
      by (rule checks_below_threshold)
    then have c1: "unhealthyCount ?s = int (length rs)"
      and c2: "\<not> alarmActive (systemState ?s)"
      by (simp_all add: initial_rtos_def)
    have "unhealthyCount (taskWatchdog_check r ?s) = 0
          \<and> alarmActive (systemState (taskWatchdog_check r ?s))"
      if "freeHeap r < 10000" "length rs = 5"
    proof -
      from that have "\<not> systemHealthy r ?s" "5 < unhealthyCount ?s + 1"
        by (simp_all add: low_heap_unhealthy c1)
      then show ?thesis
        by (simp add: check_unhealthy_above)
    qed
    with c1 c2 show ?thesis
      by (simp add: checks_append)
  qed
  from h b a q t show ?thesis
    by blast
qed

theorem watchdog_check_effect_witness:
  "systemHealthy all_well initial_rtos
   \<and> unhealthyCount (taskWatchdog_check all_well initial_rtos) = 0
   \<and> \<not> systemHealthy low_heap initial_rtos
   \<and> unhealthyCount (taskWatchdog_check low_heap initial_rtos) = 1
   \<and> \<not> alarmActive (systemState (taskWatchdog_check low_heap initial_rtos))
   \<and> \<not> systemHealthy low_heap five_faults
   \<and> unhealthyCount (taskWatchdog_check low_heap five_faults) = 0
   \<and> alarmActive (systemState (taskWatchdog_check low_heap five_faults))
   \<and> \<not> alarmActive (systemState (taskWatchdog_checks (replicate 5 low_heap) initial_rtos))
   \<and> alarmActive (systemState
        (taskWatchdog_checks (replicate 5 low_heap @ [low_heap]) initial_rtos))"
proof -
  have h1: "systemHealthy all_well initial_rtos"
    by (simp add: systemHealthy_def sensorCheck_def all_well_def initial_rtos_def)
  have h2: "\<not> systemHealthy low_heap initial_rtos"
    by (simp add: low_heap_unhealthy low_heap_def)
  have h3: "\<not> systemHealthy low_heap five_faults"
    by (simp add: low_heap_unhealthy low_heap_def)
  have h4: "\<forall>x \<in> set (replicate 5 low_heap). freeHeap x < 10000"
    by (simp add: low_heap_def)
  have h5: "freeHeap low_heap < 10000"
    by (simp add: low_heap_def)
  show ?thesis
    using h1 h2 h3 h4 h5
      watchdog_check_effect [of all_well initial_rtos "[]"]
      watchdog_check_effect [of low_heap initial_rtos "replicate 5 low_heap"]
      watchdog_check_effect [of low_heap five_faults "[]"]
    by (simp add: initial_rtos_def five_faults_def)
qed

text \<open>
  The claim as stated fails at the sixth unhealthy check in a row: the alarm flag is set,
  but the count goes from 5 to 0 instead of 6, and both queues of the program are as empty
  as before, so no event has been emitted.
\<close>

theorem watchdog_counterexample:
  "\<not> systemHealthy low_heap five_faults
   \<and> alarmActive (systemState (taskWatchdog_check low_heap five_faults))
   \<and> unhealthyCount (taskWatchdog_check low_heap five_faults)
       \<noteq> unhealthyCount five_faults + 1
   \<and> items (sensorDataQueue (taskWatchdog_check low_heap five_faults)) = []
   \<and> items (buttonEventQueue (taskWatchdog_check low_heap five_faults)) = []"
  by (simp add: taskWatchdog_check_def systemHealthy_def sensorCheck_def low_heap_def
      five_faults_def initial_rtos_def queue_create_def Let_def)

section \<open>Properties of the sensor statistics\<close>

subsection \<open>Evaluating the rounding\<close>

lemma find_exponent:
  fixes a :: rat
  assumes "2 powi e \<le> a" and "a < 2 powi (e + 1)" and "lo \<le> e" and "e \<le> hi"
  shows "find (\<lambda>e. a < 2 powi (e + 1)) [lo..hi] = Some e"
  unfolding find_Some_iff
proof (intro exI [of _ "nat (e - lo)"] conjI allI impI)
  show "nat (e - lo) < length [lo..hi]"
    using assms by simp
  show "a < 2 powi ([lo..hi] ! nat (e - lo) + 1)"
    using assms by simp
  show "e = [lo..hi] ! nat (e - lo)"
    using assms by simp
next
  fix j
  assume j: "j < nat (e - lo)"
  with assms have n: "[lo..hi] ! j = lo + int j"
    by simp
  from j have "lo + int j + 1 \<le> e"
    by simp
  then have "(2 :: rat) powi (lo + int j + 1) \<le> 2 powi e"
    by (intro power_int_increasing) simp_all
  with assms(1) show "\<not> a < 2 powi ([lo..hi] ! j + 1)"
    by (simp add: n)
qed

lemma find_exponent_None:
  fixes a :: rat
  assumes "2 powi (hi + 1) \<le> a"
  shows "find (\<lambda>e. a < 2 powi (e + 1)) [lo..hi] = None"
  unfolding find_None_iff
proof (intro notI, elim exE conjE)
  fix e
  assume "e \<in> set [lo..hi]" and l: "a < 2 powi (e + 1)"
  then have "e + 1 \<le> hi + 1"
    by simp
  then have "(2 :: rat) powi (e + 1) \<le> 2 powi (hi + 1)"
    by (intro power_int_increasing) simp_all
  with assms l show False
    by simp
qed

lemma find_exponent_low:
  fixes a :: rat
  assumes "find (\<lambda>e. a < 2 powi (e + 1)) [lo..hi] = Some e" and "2 powi lo \<le> a"
  shows "2 powi e \<le> a"
proof -
  from assms(1) obtain i where i: "i < length [lo..hi]" "e = [lo..hi] ! i"
    and first: "\<forall>j < i. \<not> a < 2 powi ([lo..hi] ! j + 1)"
    unfolding find_Some_iff by blast
  from i have e: "e = lo + int i"
    by simp
  show ?thesis
  proof (cases i)
    case 0
    with e assms(2) show ?thesis by simp
  next
    case (Suc k)
    with i have "[lo..hi] ! k = lo + int k"
      by simp
    with first Suc have "\<not> a < 2 powi (lo + int k + 1)"
      by auto
    with e Suc show ?thesis
      by (simp add: add.commute add.left_commute)
  qed
qed

lemma float_exponent_eq:
  assumes "2 powi e \<le> \<bar>q\<bar>" and "\<bar>q\<bar> < 2 powi (e + 1)" and "- 126 \<le> e" and "e \<le> 127"
  shows "float_exponent q = e"
  unfolding float_exponent_def find_exponent [OF assms] by simp

lemma float_exponent_overflow:
  assumes "2 powi 128 \<le> \<bar>q\<bar>"
  shows "float_exponent q = 128"
proof -
  have "find (\<lambda>e. \<bar>q\<bar> < 2 powi (e + 1)) [-126..127] = None"
    by (rule find_exponent_None) (use assms in simp)
  then show ?thesis
    by (simp only: float_exponent_def option.case)
qed

lemma find_exponent_None_high:
  fixes a :: rat
  assumes "find (\<lambda>e. a < 2 powi (e + 1)) [lo..hi] = None" and "lo \<le> hi"
  shows "2 powi (hi + 1) \<le> a"
proof -
  from assms(2) have "hi \<in> set [lo..hi]"
    by simp
  with assms(1) have "\<not> a < 2 powi (hi + 1)"
    unfolding find_None_iff by blast
  then show ?thesis
    by simp
qed

lemma float_exponent_low:
  assumes "1 \<le> \<bar>q\<bar>"
  shows "2 powi (float_exponent q) \<le> \<bar>q\<bar>"
proof (cases "find (\<lambda>e. \<bar>q\<bar> < 2 powi (e + 1)) [-126..127]")
  case None
  then have "2 powi (127 + 1) \<le> \<bar>q\<bar>"
    by (rule find_exponent_None_high) simp
  with None show ?thesis
    by (simp only: float_exponent_def option.case) simp
next
  case (Some e)
  have "(2 :: rat) powi (- 126) \<le> 1"
    by (simp add: power_int_minus field_simps)
  with assms have "(2 :: rat) powi (- 126) \<le> \<bar>q\<bar>"
    by simp
  with Some have "2 powi e \<le> \<bar>q\<bar>"
    by (rule find_exponent_low)
  with Some show ?thesis
    by (simp only: float_exponent_def option.case)
qed

lemma float_round_eval:
  assumes "2 powi e \<le> \<bar>q\<bar>" and "\<bar>q\<bar> < 2 powi (e + 1)" and "- 126 \<le> e" and "e \<le> 127"
  shows "float_round q = of_int (round_half_even (q / 2 powi (e - 23))) * 2 powi (e - 23)"
  using float_exponent_eq [OF assms] by (simp add: float_round_def Let_def)

lemma floor_rat_numeral:
  "\<lfloor>numeral a / numeral b :: rat\<rfloor> = numeral a div numeral b"
  using floor_divide_of_int_eq [of "numeral a" "numeral b", where ?'a = rat] by simp

lemmas float_eval = float_of_rat_def float_of_int_def round_half_even_def Let_def
  floor_rat_numeral

lemma round_half_even_near:
  "round_half_even x = \<lfloor>x\<rfloor> \<or> round_half_even x = \<lfloor>x\<rfloor> + 1"
  by (simp add: round_half_even_def Let_def)

lemma round_half_even_nonzero:
  assumes "1 \<le> \<bar>x\<bar>"
  shows "round_half_even x \<noteq> 0"
proof -
  define f where "f = \<lfloor>x\<rfloor>"
  have near: "round_half_even x = f \<or> round_half_even x = f + 1"
    unfolding f_def by (rule round_half_even_near)
  show ?thesis
  proof (cases "0 \<le> x")
    case True
    with assms have "1 \<le> f"
      by (simp add: f_def le_floor_iff)
    with near show ?thesis
      by arith
  next
    case False
    with assms have x: "x \<le> - 1"
      by simp
    then have le: "f \<le> - 1"
      by (simp add: f_def floor_le_iff)
    show ?thesis
    proof (cases "f = - 1")
      case True
      with x have "x - of_int \<lfloor>x\<rfloor> < 1 / 2"
        by (simp add: f_def)
      then have "round_half_even x = \<lfloor>x\<rfloor>"
        by (simp add: round_half_even_def Let_def)
      with True show ?thesis
        by (simp add: f_def)
    next
      case False
      with le have "f \<le> - 2"
        by simp
      with near show ?thesis
        by arith
    qed
  qed
qed

lemma float_round_nonzero:
  assumes "1 \<le> \<bar>q\<bar>"
  shows "float_round q \<noteq> 0"
proof -
  let ?e = "float_exponent q"
  have "(2 :: rat) powi (?e - 23) \<le> 2 powi ?e"
    by (intro power_int_increasing) simp_all
  also have "\<dots> \<le> \<bar>q\<bar>"
    using assms by (rule float_exponent_low)
  finally have "1 \<le> \<bar>q\<bar> / 2 powi (?e - 23)"
    by (simp add: pos_le_divide_eq)
  then have "1 \<le> \<bar>q / 2 powi (?e - 23)\<bar>"
    by simp
  then have "round_half_even (q / 2 powi (?e - 23)) \<noteq> 0"
    by (rule round_half_even_nonzero)
  then show ?thesis
    by (simp add: float_round_def Let_def)
qed

lemma float_of_int_nonzero:
  assumes "n \<noteq> 0"
  shows "float_of_int n \<noteq> Finite 0"
proof -
  from assms have "1 \<le> \<bar>n\<bar>"
    by simp
  then have "(1 :: rat) \<le> of_int \<bar>n\<bar>"
    by (simp only: of_int_1_le_iff)
  then have "1 \<le> \<bar>rat_of_int n\<bar>"
    by (simp only: of_int_abs)
  then have "float_round (of_int n) \<noteq> 0"
    by (rule float_round_nonzero)
  then show ?thesis
    by (simp add: float_of_int_def float_of_rat_def Let_def)
qed


subsection \<open>The loop\<close>

lemma stats_loop:
  assumes "n \<le> length b"
  shows "foldl (stats_step b) (s, mn, mx) [0..<n] =
           (foldl float_add s (take n b),
            foldl keep_min mn (take n b),
            foldl keep_max mx (take n b))"
  using assms
proof (induction n)
  case 0
  then show ?case by simp
next
  case (Suc n)
  then have t: "take (Suc n) b = take n b @ [b ! n]"
    by (simp add: take_Suc_conv_app_nth)
  from Suc show ?case
    by (simp add: t stats_step_def keep_min_def keep_max_def Let_def)
qed

lemma keep_min_mem: "foldl keep_min m xs \<in> insert m (set xs)"
  by (induction xs arbitrary: m) (auto simp: keep_min_def split: if_splits)

lemma keep_max_mem: "foldl keep_max m xs \<in> insert m (set xs)"
  by (induction xs arbitrary: m) (auto simp: keep_max_def split: if_splits)

lemma Min_insert_min:
  fixes S :: "rat set"
  assumes "finite S"
  shows "Min (insert (min v m) S) = Min (insert m (insert v S))"
proof (cases "S = {}")
  case True
  then show ?thesis by (simp add: min.commute)
next
  case False
  with assms show ?thesis
    by (simp add: min.assoc min.commute min.left_commute)
qed

lemma Max_insert_max:
  fixes S :: "rat set"
  assumes "finite S"
  shows "Max (insert (max v m) S) = Max (insert m (insert v S))"
proof (cases "S = {}")
  case True
  then show ?thesis by (simp add: max.commute)
next
  case False
  with assms show ?thesis
    by (simp add: max.assoc max.commute max.left_commute)
qed

lemma keep_min_finite:
  "foldl keep_min (Finite m) (map Finite vs) = Finite (Min (insert m (set vs)))"
proof (induction vs arbitrary: m)
  case Nil
  then show ?case by simp
next
  case (Cons v vs)
  have "keep_min (Finite m) (Finite v) = Finite (min v m)"
    by (simp add: keep_min_def min_def)
  with Cons show ?case
    by (simp add: Min_insert_min)
qed

lemma keep_max_finite:
  "foldl keep_max (Finite m) (map Finite vs) = Finite (Max (insert m (set vs)))"
proof (induction vs arbitrary: m)
  case Nil
  then show ?case by simp
next
  case (Cons v vs)
  have "keep_max (Finite m) (Finite v) = Finite (max v m)"
    by (simp add: keep_max_def max_def)
  with Cons show ?case
    by (simp add: Max_insert_max)
qed

lemma sum_list_lower:
  fixes xs :: "rat list"
  assumes "\<forall>x \<in> set xs. a \<le> x"
  shows "of_nat (length xs) * a \<le> sum_list xs"
  using assms by (induction xs) (auto simp: algebra_simps)

lemma sum_list_upper:
  fixes xs :: "rat list"
  assumes "\<forall>x \<in> set xs. x \<le> a"
  shows "sum_list xs \<le> of_nat (length xs) * a"
  using assms by (induction xs) (auto simp: algebra_simps)

lemma mean_between:
  fixes xs :: "rat list"
  assumes "xs \<noteq> []"
  shows "Min (set xs) \<le> sum_list xs / of_nat (length xs)
         \<and> sum_list xs / of_nat (length xs) \<le> Max (set xs)"
proof -
  from assms have pos: "(0 :: rat) < of_nat (length xs)"
    by simp
  have "of_nat (length xs) * Min (set xs) \<le> sum_list xs"
    by (rule sum_list_lower) simp
  moreover have "sum_list xs \<le> of_nat (length xs) * Max (set xs)"
    by (rule sum_list_upper) simp
  ultimately show ?thesis
    using pos by (simp add: pos_le_divide_eq pos_divide_le_eq mult.commute)
qed

text \<open>What the function returns for a positive number of readings.\<close>

lemma calculateSensorStats_positive:
  assumes len: "length sensorReadings = nat BUFFER_SIZE"
    and p: "0 < totalReadings"
    and n: "n = nat (min totalReadings BUFFER_SIZE)"
    and u: "used = take n sensorReadings"
  shows "0 < n" and "length used = n"
    and "calculateSensorStats sensorReadings totalReadings =
           Inr (float_quotient (foldl float_add (Finite 0) used) (float_of_int (int n)),
                foldl keep_min (hd used) used, foldl keep_max (hd used) used)"
proof -
  from p n show n0: "0 < n"
    by (simp add: BUFFER_SIZE_def)
  from p n have n60: "n \<le> 60"
    by (simp add: BUFFER_SIZE_def)
  from len have l60: "length sensorReadings = 60"
    by (simp add: BUFFER_SIZE_def)
  from n60 l60 u show lu: "length used = n"
    by simp
  with n0 have ne: "used \<noteq> []"
    by auto
  from n0 l60 u have "sensorReadings ! 0 = used ! 0"
    by simp
  with ne have first: "sensorReadings ! 0 = hd used"
    by (simp add: hd_conv_nth)
  have r: "(if totalReadings < BUFFER_SIZE then totalReadings else BUFFER_SIZE) = int n"
    using p n by (simp add: min_def BUFFER_SIZE_def)
  have loop: "foldl (stats_step sensorReadings)
                (Finite 0, sensorReadings ! 0, sensorReadings ! 0) [0..<n]
              = (foldl float_add (Finite 0) used,
                 foldl keep_min (hd used) used, foldl keep_max (hd used) used)"
    using n60 l60 by (simp add: stats_loop u first)
  from n0 have "float_of_int (int n) \<noteq> Finite 0"
    by (intro float_of_int_nonzero) simp
  then show "calculateSensorStats sensorReadings totalReadings =
           Inr (float_quotient (foldl float_add (Finite 0) used) (float_of_int (int n)),
                foldl keep_min (hd used) used, foldl keep_max (hd used) used)"
    using p by (simp add: calculateSensorStats_def r loop float_div_def)
qed

lemma calculateSensorStats_no_division_by_zero:
  "calculateSensorStats sensorReadings totalReadings \<noteq> Inl DivisionByZero"
proof (cases "totalReadings = 0")
  case True
  then show ?thesis by (simp add: calculateSensorStats_def)
next
  case False
  then have "(if totalReadings < BUFFER_SIZE then totalReadings else BUFFER_SIZE) \<noteq> 0"
    by (simp add: BUFFER_SIZE_def)
  then have "float_of_int (if totalReadings < BUFFER_SIZE then totalReadings else BUFFER_SIZE)
               \<noteq> Finite 0"
    by (rule float_of_int_nonzero)
  with False show ?thesis
    by (simp add: calculateSensorStats_def float_div_def Let_def split: prod.splits)
qed

subsection \<open>The guard, the count and the bounds\<close>

text \<open>
  Claim C10, as the code has it. For every buffer contents, NaN and infinities included,
  \<open>calculateSensorStats\<close> never divides by zero. With \<open>totalReadings = 0\<close> it returns 0
  for average, minimum and maximum. With \<open>totalReadings\<close> positive it uses exactly the
  first \<open>n = min(totalReadings, 60)\<close> readings: the average is the float quotient by \<open>n\<close>
  of their running float sum, and minimum and maximum are each one of those readings.
  When those readings are all finite, minimum and maximum are the least and the greatest
  of them, so \<open>minimum \<le> maximum\<close>, and their exact mean lies between minimum and maximum;
  the computed average is that mean up to float rounding only.
\<close>

theorem calculateSensorStats_guarded:
  assumes "length sensorReadings = nat BUFFER_SIZE"
  shows "calculateSensorStats sensorReadings totalReadings \<noteq> Inl DivisionByZero
    \<and> (totalReadings = 0 \<longrightarrow>
          calculateSensorStats sensorReadings totalReadings
            = Inr (Finite 0, Finite 0, Finite 0))
    \<and> (0 < totalReadings \<longrightarrow>
          (let n = nat (min totalReadings BUFFER_SIZE);
               used = take n sensorReadings
           in 0 < n \<and> length used = n
              \<and> calculateSensorStats sensorReadings totalReadings =
                  Inr (float_quotient (foldl float_add (Finite 0) used) (float_of_int (int n)),
                       foldl keep_min (hd used) used, foldl keep_max (hd used) used)
              \<and> foldl keep_min (hd used) used \<in> set used
              \<and> foldl keep_max (hd used) used \<in> set used
              \<and> (used = map Finite vs \<longrightarrow>
                   foldl keep_min (hd used) used = Finite (Min (set vs))
                   \<and> foldl keep_max (hd used) used = Finite (Max (set vs))
                   \<and> Min (set vs) \<le> Max (set vs)
                   \<and> Min (set vs) \<le> sum_list vs / of_nat n
                   \<and> sum_list vs / of_nat n \<le> Max (set vs))))"
proof -
  have zero: "calculateSensorStats sensorReadings totalReadings
                = Inr (Finite 0, Finite 0, Finite 0)"
    if "totalReadings = 0"
    using that by (simp add: calculateSensorStats_def)
  have pos: "0 < n \<and> length used = n
      \<and> calculateSensorStats sensorReadings totalReadings =
          Inr (float_quotient (foldl float_add (Finite 0) used) (float_of_int (int n)),
               foldl keep_min (hd used) used, foldl keep_max (hd used) used)
      \<and> foldl keep_min (hd used) used \<in> set used
      \<and> foldl keep_max (hd used) used \<in> set used
      \<and> (used = map Finite vs \<longrightarrow>
           foldl keep_min (hd used) used = Finite (Min (set vs))
           \<and> foldl keep_max (hd used) used = Finite (Max (set vs))
           \<and> Min (set vs) \<le> Max (set vs)
           \<and> Min (set vs) \<le> sum_list vs / of_nat n
           \<and> sum_list vs / of_nat n \<le> Max (set vs))"
    if p: "0 < totalReadings"
      and n: "n = nat (min totalReadings BUFFER_SIZE)"
      and u: "used = take n sensorReadings"
    for n used
  proof -
    note c = calculateSensorStats_positive [OF assms p n u]
    from c(1,2) have ne: "used \<noteq> []"
      by auto
    then have h: "hd used \<in> set used"
      by simp
    have mem: "foldl keep_min (hd used) used \<in> set used"
      "foldl keep_max (hd used) used \<in> set used"
      using keep_min_mem [of "hd used" used] keep_max_mem [of "hd used" used] h
      by (simp_all add: insert_absorb)
    have fin: "foldl keep_min (hd used) used = Finite (Min (set vs))
           \<and> foldl keep_max (hd used) used = Finite (Max (set vs))
           \<and> Min (set vs) \<le> Max (set vs)
           \<and> Min (set vs) \<le> sum_list vs / of_nat n
           \<and> sum_list vs / of_nat n \<le> Max (set vs)"
      if f: "used = map Finite vs"
    proof -
      from f ne have v: "vs \<noteq> []"
        by auto
      from f c(2) have lv: "length vs = n"
        by auto
      from v have "hd vs \<in> set vs"
        by simp
      then have ab: "insert (hd vs) (set vs) = set vs"
        by (rule insert_absorb)
      have "foldl keep_min (hd used) used = Finite (Min (set vs))"
        "foldl keep_max (hd used) used = Finite (Max (set vs))"
        using v by (simp_all add: f hd_map keep_min_finite keep_max_finite ab)
      moreover from v have "Min (set vs) \<le> Max (set vs)"
        by simp
      moreover note mean_between [OF v]
      ultimately show ?thesis
        using lv by simp
    qed
    from c mem fin show ?thesis
      by blast
  qed
  show ?thesis
    unfolding Let_def
    using calculateSensorStats_no_division_by_zero zero pos [OF _ refl refl] by blast
qed


lemma float_round_overflow_eval:
  assumes "2 powi 128 \<le> \<bar>q\<bar>"
  shows "float_round q = of_int (round_half_even (q / 2 powi 105)) * 2 powi 105"
  using float_exponent_overflow [OF assms] by (simp add: float_round_def Let_def)

lemma ramp_sum: "foldl float_add (Finite 0) (map Finite [1, 2, 3]) = Finite 6"
proof -
  have 1: "float_add (Finite 0) (Finite 1) = Finite 1"
    using float_round_eval [of 0 1] by (simp add: float_eval)
  have 2: "float_add (Finite 1) (Finite 2) = Finite 3"
    using float_round_eval [of 1 3] by (simp add: float_eval)
  have 3: "float_add (Finite 3) (Finite 3) = Finite 6"
    using float_round_eval [of 2 6] by (simp add: float_eval)
  show ?thesis
    by (simp only: list.map foldl.simps 1 2 3)
qed

theorem calculateSensorStats_guarded_witness:
  "length ramp_readings = nat BUFFER_SIZE
   \<and> (0 :: int) < 3
   \<and> take (nat (min 3 BUFFER_SIZE)) ramp_readings = map Finite [1, 2, 3]
   \<and> calculateSensorStats ramp_readings 3 = Inr (Finite 2, Finite 1, Finite 3)
   \<and> calculateSensorStats ramp_readings 0 = Inr (Finite 0, Finite 0, Finite 0)
   \<and> calculateSensorStats ramp_readings 3 \<noteq> Inl DivisionByZero"
proof -
  have len: "length ramp_readings = nat BUFFER_SIZE"
    by (simp add: ramp_readings_def BUFFER_SIZE_def)
  have t: "take (nat (min 3 BUFFER_SIZE)) ramp_readings = map Finite [1, 2, 3]"
    by (simp add: ramp_readings_def BUFFER_SIZE_def)
  have d: "float_of_int 3 = Finite 3"
    using float_round_eval [of 1 3] by (simp add: float_eval)
  have q: "float_quotient (Finite 6) (Finite 3) = Finite 2"
    using float_round_eval [of 1 2] by (simp add: float_eval)
  have m: "Min (set [1, 2, 3 :: rat]) = 1" "Max (set [1, 2, 3 :: rat]) = 3"
    by simp_all
  have p: "(0 :: int) < 3"
    by simp
  have n3: "int (nat (min 3 BUFFER_SIZE)) = 3"
    by (simp add: BUFFER_SIZE_def)
  from calculateSensorStats_guarded [OF len, of 3 "[1, 2, 3]", unfolded Let_def] t p
  have "calculateSensorStats ramp_readings 3 =
          Inr (float_quotient
                 (foldl float_add (Finite 0) (take (nat (min 3 BUFFER_SIZE)) ramp_readings))
                 (float_of_int (int (nat (min 3 BUFFER_SIZE)))),
               Finite (Min (set [1, 2, 3])), Finite (Max (set [1, 2, 3])))"
    by metis
  then have "calculateSensorStats ramp_readings 3 = Inr (Finite 2, Finite 1, Finite 3)"
    by (simp only: t n3 ramp_sum d q m)
  with len t calculateSensorStats_guarded [OF len, of 0] show ?thesis
    by simp
qed

subsection \<open>The average can leave the range\<close>

lemma full_scale_sum:
  "foldl float_add (Finite 0) (replicate 7 (Finite full_scale)) = Finite (3027763 / 131072)"
proof -
  let ?v = "Finite full_scale"
  have r: "replicate 7 ?v = [?v, ?v, ?v, ?v, ?v, ?v, ?v]"
    by (simp add: eval_nat_numeral)
  have 1: "float_add (Finite 0) ?v = ?v"
    using float_round_eval [of 1 "13841203 / 4194304"]
    by (simp add: float_eval full_scale_def)
  have 2: "float_add ?v ?v = Finite (13841203 / 2097152)"
    using float_round_eval [of 2 "13841203 / 2097152"]
    by (simp add: float_eval full_scale_def)
  have 3: "float_add (Finite (13841203 / 2097152)) ?v = Finite (5190451 / 524288)"
    using float_round_eval [of 3 "41523609 / 4194304"]
    by (simp add: float_eval full_scale_def)
  have 4: "float_add (Finite (5190451 / 524288)) ?v = Finite (13841203 / 1048576)"
    using float_round_eval [of 3 "55364811 / 4194304"]
    by (simp add: float_eval full_scale_def)
  have 5: "float_add (Finite (13841203 / 1048576)) ?v = Finite (33 / 2)"
    using float_round_eval [of 4 "69206015 / 4194304"]
    by (simp add: float_eval full_scale_def)
  have 6: "float_add (Finite (33 / 2)) ?v = Finite (5190451 / 262144)"
    using float_round_eval [of 4 "83047219 / 4194304"]
    by (simp add: float_eval full_scale_def)
  have 7: "float_add (Finite (5190451 / 262144)) ?v = Finite (3027763 / 131072)"
    using float_round_eval [of 4 "96888419 / 4194304"]
    by (simp add: float_eval full_scale_def)
  show ?thesis
    by (simp only: r foldl.simps 1 2 3 4 5 6 7)
qed

text \<open>
  The claim's \<open>minimum \<le> average\<close> fails with readings the sensor can deliver: seven
  readings at full scale, each the float nearest to 3.3, have the running float sum
  3027763 / 131072, and its float quotient by 7 is the float just below that reading.
\<close>

theorem average_below_minimum_counterexample:
  "calculateSensorStats full_scale_readings 7 =
     Inr (Finite (6920601 / 2097152), Finite (13841203 / 4194304),
          Finite (13841203 / 4194304))
   \<and> float_less (Finite (6920601 / 2097152)) (Finite (13841203 / 4194304))"
proof -
  have len: "length full_scale_readings = nat BUFFER_SIZE"
    by (simp add: full_scale_readings_def BUFFER_SIZE_def)
  have t: "take 7 full_scale_readings = replicate 7 (Finite full_scale)"
    by (simp add: full_scale_readings_def)
  have mn: "foldl keep_min (Finite full_scale) (map Finite (replicate 7 full_scale))
              = Finite full_scale"
    by (simp only: keep_min_finite) simp
  have mx: "foldl keep_max (Finite full_scale) (map Finite (replicate 7 full_scale))
              = Finite full_scale"
    by (simp only: keep_max_finite) simp
  have d: "float_of_int 7 = Finite 7"
    using float_round_eval [of 2 7] by (simp add: float_eval)
  have q: "float_quotient (Finite (3027763 / 131072)) (Finite 7)
             = Finite (6920601 / 2097152)"
    using float_round_eval [of 1 "3027763 / 917504"] by (simp add: float_eval)
  have "calculateSensorStats full_scale_readings 7 =
          Inr (float_quotient (foldl float_add (Finite 0) (replicate 7 (Finite full_scale)))
                 (float_of_int 7),
               foldl keep_min (Finite full_scale) (map Finite (replicate 7 full_scale)),
               foldl keep_max (Finite full_scale) (map Finite (replicate 7 full_scale)))"
    using calculateSensorStats_positive(3) [OF len, of 7 7 "take 7 full_scale_readings"]
    by (simp add: BUFFER_SIZE_def t)
  then show ?thesis
    by (simp only: full_scale_sum d q mn mx) (simp add: full_scale_def)
qed

text \<open>
  Outside the finite readings the bounds are lost altogether: two readings of \<open>FLT_MAX\<close>
  overflow the sum, so that the average is infinite, above the maximum; and a NaN reading
  in the first slot makes all three results NaN.
\<close>

lemma overflow_average_above_maximum:
  "calculateSensorStats overflow_readings 2 = Inr (PlusInf, Finite FLT_MAX, Finite FLT_MAX)
   \<and> float_less (Finite FLT_MAX) PlusInf"
proof -
  have len: "length overflow_readings = nat BUFFER_SIZE"
    by (simp add: overflow_readings_def BUFFER_SIZE_def)
  have t: "take 2 overflow_readings = map Finite [FLT_MAX, FLT_MAX]"
    by (simp add: overflow_readings_def)
  have 1: "float_add (Finite 0) (Finite FLT_MAX) = Finite FLT_MAX"
    using float_round_eval [of 127 FLT_MAX] by (simp add: float_eval FLT_MAX_def)
  have 2: "float_add (Finite FLT_MAX) (Finite FLT_MAX) = PlusInf"
    using float_round_overflow_eval [of "FLT_MAX + FLT_MAX"]
    by (simp add: float_eval FLT_MAX_def)
  have d: "float_of_int 2 = Finite 2"
    using float_round_eval [of 1 2] by (simp add: float_eval)
  have mn: "foldl keep_min (Finite FLT_MAX) (map Finite [FLT_MAX, FLT_MAX]) = Finite FLT_MAX"
    by (simp only: keep_min_finite) simp
  have mx: "foldl keep_max (Finite FLT_MAX) (map Finite [FLT_MAX, FLT_MAX]) = Finite FLT_MAX"
    by (simp only: keep_max_finite) simp
  have "calculateSensorStats overflow_readings 2 =
          Inr (float_quotient (foldl float_add (Finite 0) (map Finite [FLT_MAX, FLT_MAX]))
                 (float_of_int 2),
               foldl keep_min (Finite FLT_MAX) (map Finite [FLT_MAX, FLT_MAX]),
               foldl keep_max (Finite FLT_MAX) (map Finite [FLT_MAX, FLT_MAX]))"
    using calculateSensorStats_positive(3) [OF len, of 2 2 "take 2 overflow_readings"]
    by (simp add: BUFFER_SIZE_def t)
  then have "calculateSensorStats overflow_readings 2 =
          Inr (float_quotient (foldl float_add (Finite 0) (map Finite [FLT_MAX, FLT_MAX]))
                 (Finite 2), Finite FLT_MAX, Finite FLT_MAX)"
    by (simp only: mn mx d)
  moreover have "foldl float_add (Finite 0) (map Finite [FLT_MAX, FLT_MAX]) = PlusInf"
    by (simp only: list.map foldl.simps 1 2)
  ultimately show ?thesis
    by simp
qed

lemma nan_reading_spoils_all:
  "calculateSensorStats nan_readings 1 = Inr (NaN, NaN, NaN)"
proof -
  have len: "length nan_readings = nat BUFFER_SIZE"
    by (simp add: nan_readings_def BUFFER_SIZE_def)
  have "calculateSensorStats nan_readings 1 =
          Inr (float_quotient (foldl float_add (Finite 0) [NaN]) (float_of_int (int 1)),
               foldl keep_min (hd [NaN]) [NaN], foldl keep_max (hd [NaN]) [NaN])"
    by (rule calculateSensorStats_positive(3) [OF len])
      (simp_all add: BUFFER_SIZE_def nan_readings_def)
  then show ?thesis
    by (simp add: keep_min_def keep_max_def)
qed


end
